theory Spec2Isabelle
  imports Main "HOL-Library.Word"
begin

unbundle bit_operations_syntax

section \<open>Go values shared by the whole development\<close>

text \<open>
  A Go \<open>byte\<close> is an 8-bit word; Go \<open>int\<close>, \<open>int64\<close> and \<open>uint64\<close> values that are stored in
  item nodes are 64-bit words (read with \<open>sint\<close> or \<open>uint\<close>).  Sizes, stream and function
  codes and session ids are Go \<open>int\<close>s that never come near 64 bits; they are modelled as
  \<open>int\<close>.  A \<open>panic\<close> is an error value carrying the message of the source.  A function
  whose recursion is not structural counts down a fuel and returns an \<open>option\<close>: \<open>None\<close>
  when the fuel runs out, \<open>Some\<close> of a panic or of its result otherwise.
\<close>

type_synonym byte = "8 word"

datatype error = Panic string

text \<open>Decimal printing, as \<open>fmt.Sprintf("%d", n)\<close> does.\<close>

fun utoa :: "nat \<Rightarrow> string" where
  "utoa n = (if n < 10 then [char_of (48 + n)] else utoa (n div 10) @ [char_of (48 + n mod 10)])"

declare utoa.simps [simp del]

definition itoa :: "int \<Rightarrow> string" where
  "itoa i = (if i < 0 then CHR ''-'' # utoa (nat (- i)) else utoa (nat i))"

subsection \<open>Variable names (interface.go)\<close>

definition isDigit :: "char \<Rightarrow> bool" where
  "isDigit c = (48 \<le> (of_char c :: nat) \<and> (of_char c :: nat) \<le> 57)"

definition isWordChar :: "char \<Rightarrow> bool" where
  "isWordChar c = (isDigit c \<or> (65 \<le> (of_char c :: nat) \<and> (of_char c :: nat) \<le> 90)
      \<or> (97 \<le> (of_char c :: nat) \<and> (of_char c :: nat) \<le> 122) \<or> c = CHR ''_'')"

text \<open>The suffix \<open>(\[\d+\])*$\<close> of the variable-name pattern, as a three-state recogniser.\<close>

fun indexTags :: "string \<Rightarrow> bool"
  and indexTagFirstDigit :: "string \<Rightarrow> bool"
  and indexTagDigits :: "string \<Rightarrow> bool" where
  "indexTags [] = True"
| "indexTags (c # cs) = (c = CHR ''['' \<and> indexTagFirstDigit cs)"
| "indexTagFirstDigit [] = False"
| "indexTagFirstDigit (c # cs) = (isDigit c \<and> indexTagDigits cs)"
| "indexTagDigits [] = False"
| "indexTagDigits (c # cs) = (if isDigit c then indexTagDigits cs else c = CHR '']'' \<and> indexTags cs)"

text \<open>\<open>isValidVarName\<close>: the pattern \<open>^[A-Za-z_]\w*(\[\d+\])*$\<close>.\<close>

definition isValidVarName :: "string \<Rightarrow> bool" where
  "isValidVarName name =
     (case name of
        [] \<Rightarrow> False
      | c # cs \<Rightarrow> isWordChar c \<and> \<not> isDigit c \<and> indexTags (dropWhile isWordChar cs))"

text \<open>\<open>isEllipsis\<close>: the pattern \<open>^\.{3}(\[\d+\])?$\<close>.\<close>

definition isEllipsis :: "string \<Rightarrow> bool" where
  "isEllipsis name =
     (take 3 name = ''...'' \<and>
       (case drop 3 name of
          [] \<Rightarrow> True
        | c # cs \<Rightarrow> c = CHR ''['' \<and> takeWhile isDigit cs \<noteq> [] \<and> dropWhile isDigit cs = '']''))"

subsection \<open>Item headers (interface.go)\<close>

definition MAX_BYTE_SIZE :: int where
  "MAX_BYTE_SIZE = 2 ^ 24 - 1"

text \<open>The two lookup tables; a key that is absent from a Go map reads as 0.\<close>

definition bytePerValue :: "string \<Rightarrow> int" where
  "bytePerValue typ =
     (if typ = ''list'' then 1 else if typ = ''binary'' then 1 else if typ = ''boolean'' then 1
      else if typ = ''ascii'' then 1 else if typ = ''i8'' then 8 else if typ = ''i1'' then 1
      else if typ = ''i2'' then 2 else if typ = ''i4'' then 4 else if typ = ''f8'' then 8
      else if typ = ''f4'' then 4 else if typ = ''u8'' then 8 else if typ = ''u1'' then 1
      else if typ = ''u2'' then 2 else if typ = ''u4'' then 4 else 0)"

definition formatCode :: "string \<Rightarrow> int" where
  "formatCode typ =
     (if typ = ''list'' then 0 else if typ = ''binary'' then 8 else if typ = ''boolean'' then 9
      else if typ = ''ascii'' then 16 else if typ = ''i8'' then 24 else if typ = ''i1'' then 25
      else if typ = ''i2'' then 26 else if typ = ''i4'' then 28 else if typ = ''f8'' then 32
      else if typ = ''f4'' then 36 else if typ = ''u8'' then 40 else if typ = ''u1'' then 41
      else if typ = ''u2'' then 42 else if typ = ''u4'' then 44 else 0)"

definition getDataByteLength :: "string \<Rightarrow> int \<Rightarrow> int" where
  "getDataByteLength typ sz = sz * bytePerValue typ"

text \<open>\<open>byte(x >> k)\<close> on a Go \<open>int\<close>: shift, then keep the low eight bits.\<close>

definition byte_shr :: "int \<Rightarrow> nat \<Rightarrow> byte" where
  "byte_shr x k = word_of_int (drop_bit k x)"

definition getHeaderBytes :: "string \<Rightarrow> int \<Rightarrow> error + byte list" where
  "getHeaderBytes typ sz =
     (let dataByteLength = getDataByteLength typ sz in
      if dataByteLength > MAX_BYTE_SIZE then Inl (Panic ''size limit exceeded'')
      else
        let lengthBytes = [byte_shr dataByteLength 16, byte_shr dataByteLength 8,
                           byte_shr dataByteLength 0];
            lengthBytes = (if lengthBytes ! 0 = 0
                           then (if lengthBytes ! 1 = 0 then drop 2 lengthBytes
                                 else drop 1 lengthBytes)
                           else lengthBytes)
        in Inr (word_of_int (push_bit 2 (formatCode typ) + int (length lengthBytes)) # lengthBytes))"

section \<open>HSMS control messages (hsms.go)\<close>

record ControlMessage =
  header :: "byte list"

definition sTypeSelectReq :: byte where "sTypeSelectReq = 1"
definition sTypeSelectRsp :: byte where "sTypeSelectRsp = 2"
definition sTypeDeselectReq :: byte where "sTypeDeselectReq = 3"
definition sTypeDeselectRsp :: byte where "sTypeDeselectRsp = 4"
definition sTypeLinktestReq :: byte where "sTypeLinktestReq = 5"
definition sTypeLinktestRsp :: byte where "sTypeLinktestRsp = 6"
definition sTypeRejectReq :: byte where "sTypeRejectReq = 7"
definition sTypeSeparateReq :: byte where "sTypeSeparateReq = 9"

text \<open>
  Every constructor starts from \<open>make([]byte, 10)\<close> and assigns header bytes by index.
  Reading \<open>systemBytes[0..3]\<close> panics when the caller's slice is shorter than four bytes.
\<close>

definition indexOutOfRange :: error where
  "indexOutOfRange = Panic ''index out of range''"

definition stampHeader :: "byte \<Rightarrow> byte \<Rightarrow> byte \<Rightarrow> byte \<Rightarrow> byte \<Rightarrow> byte list
    \<Rightarrow> error + ControlMessage" where
  "stampHeader h0 h1 h2 h3 h5 systemBytes =
     (if length systemBytes < 4 then Inl indexOutOfRange
      else Inr \<lparr>header = (replicate 10 0)
                 [0 := h0, 1 := h1, 2 := h2, 3 := h3, 5 := h5,
                  6 := systemBytes ! 0, 7 := systemBytes ! 1,
                  8 := systemBytes ! 2, 9 := systemBytes ! 3]\<rparr>)"

definition ControlMessage_Type :: "ControlMessage \<Rightarrow> string" where
  "ControlMessage_Type msg =
     (if header msg ! 4 \<noteq> 0 then ''undefined''
      else if header msg ! 5 = 1 then ''select.req''
      else if header msg ! 5 = 2 then ''select.rsp''
      else if header msg ! 5 = 3 then ''deselect.req''
      else if header msg ! 5 = 4 then ''deselect.rsp''
      else if header msg ! 5 = 5 then ''linktest.req''
      else if header msg ! 5 = 6 then ''linktest.rsp''
      else if header msg ! 5 = 7 then ''reject.req''
      else if header msg ! 5 = 9 then ''separate.req''
      else ''undefined'')"

text \<open>\<open>NewHSMSControlMessage\<close> copies a header into ten fresh bytes; an eleventh byte is
  still written (the loop leaves at \<open>i > 10\<close>) and panics.\<close>

definition NewHSMSControlMessage :: "byte list \<Rightarrow> error + ControlMessage" where
  "NewHSMSControlMessage hdr =
     (if length hdr > 10 then Inl indexOutOfRange
      else Inr \<lparr>header = hdr @ replicate (10 - length hdr) 0\<rparr>)"

definition NewHSMSMessageSelectReq :: "16 word \<Rightarrow> byte list \<Rightarrow> error + ControlMessage" where
  "NewHSMSMessageSelectReq sessionID systemBytes =
     stampHeader (ucast (drop_bit 8 sessionID)) (ucast sessionID) 0 0 sTypeSelectReq systemBytes"

definition NewHSMSMessageSelectRsp :: "ControlMessage \<Rightarrow> byte \<Rightarrow> error + ControlMessage" where
  "NewHSMSMessageSelectRsp selectReq selectStatus =
     (if ControlMessage_Type selectReq \<noteq> ''select.req''
      then Inl (Panic ''expected select.req message'')
      else stampHeader (header selectReq ! 0) (header selectReq ! 1) 0 selectStatus
             sTypeSelectRsp (drop 6 (header selectReq)))"

definition NewHSMSMessageDeselectReq :: "16 word \<Rightarrow> byte list \<Rightarrow> error + ControlMessage" where
  "NewHSMSMessageDeselectReq sessionID systemBytes =
     stampHeader (ucast (drop_bit 8 sessionID)) (ucast sessionID) 0 0 sTypeDeselectReq systemBytes"

definition NewHSMSMessageDeselectRsp :: "ControlMessage \<Rightarrow> byte \<Rightarrow> error + ControlMessage" where
  "NewHSMSMessageDeselectRsp deselectReq deselectStatus =
     (if ControlMessage_Type deselectReq \<noteq> ''deselect.req''
      then Inl (Panic ''expected deselect.req message'')
      else stampHeader (header deselectReq ! 0) (header deselectReq ! 1) 0 deselectStatus
             sTypeDeselectRsp (drop 6 (header deselectReq)))"

definition NewHSMSMessageLinktestReq :: "byte list \<Rightarrow> error + ControlMessage" where
  "NewHSMSMessageLinktestReq systemBytes =
     stampHeader 0xFF 0xFF 0 0 sTypeLinktestReq systemBytes"

definition NewHSMSMessageLinktestRsp :: "ControlMessage \<Rightarrow> error + ControlMessage" where
  "NewHSMSMessageLinktestRsp linktestReq =
     (if ControlMessage_Type linktestReq \<noteq> ''linktest.req''
      then Inl (Panic ''expected linktest.req message'')
      else stampHeader 0xFF 0xFF 0 0 sTypeLinktestRsp (drop 6 (header linktestReq)))"

definition NewHSMSMessageRejectReq ::
    "16 word \<Rightarrow> byte \<Rightarrow> byte \<Rightarrow> byte list \<Rightarrow> byte \<Rightarrow> error + ControlMessage" where
  "NewHSMSMessageRejectReq sessionID pType sType systemBytes reasonCode =
     stampHeader (ucast (drop_bit 8 sessionID)) (ucast sessionID)
       (if reasonCode = 2 then pType else sType) reasonCode sTypeRejectReq systemBytes"

definition NewHSMSMessageSeparateReq :: "16 word \<Rightarrow> byte list \<Rightarrow> error + ControlMessage" where
  "NewHSMSMessageSeparateReq sessionID systemBytes =
     stampHeader (ucast (drop_bit 8 sessionID)) (ucast sessionID) 0 0 sTypeSeparateReq systemBytes"

definition ControlMessage_ToBytes :: "ControlMessage \<Rightarrow> byte list" where
  "ControlMessage_ToBytes msg = [0, 0, 0, 10] @ header msg"

section \<open>Data items (interface.go and the node files)\<close>

text \<open>
  Conversions that belong to the Go runtime and its standard library, not to this
  repository, are parameters of the model: every statement below holds for whatever
  these functions compute.  A \<open>float64\<close> is represented by its IEEE 754 bit pattern.
\<close>

record golib =
  Float32bits :: "64 word \<Rightarrow> 32 word"      \<comment> \<open>\<open>math.Float32bits(float32(v))\<close>\<close>
  Float32frombits :: "32 word \<Rightarrow> 64 word"  \<comment> \<open>\<open>float64(math.Float32frombits(b))\<close>\<close>
  float64_of_int :: "int \<Rightarrow> 64 word"       \<comment> \<open>\<open>float64(n)\<close> for an integer \<open>n\<close>\<close>
  ParseInt :: "string \<Rightarrow> 64 word"          \<comment> \<open>\<open>strconv.ParseInt(v, 0, 0)\<close>, as an \<open>int\<close>\<close>
  hasSpaceRune :: "string \<Rightarrow> bool"        \<comment> \<open>some rune of the string satisfies \<open>unicode.IsSpace\<close>\<close>

text \<open>
  A node's \<open>variables\<close> field is a Go map from names to positions.  It is modelled as an
  association list in insertion order; Go iterates a map in no specified order, and the
  results below do not depend on it as long as names and positions are unique, which the
  constructors check.  Positions are loop indices, hence natural numbers.
\<close>

type_synonym variables = "(string \<times> nat) list"

datatype asciiNodeVariable = asciiNodeVariable (vname: string) (minLength: int) (maxLength: int)

datatype ItemNode =
    emptyItemNode
  | ListNode "ItemNode list" variables
  | ASCIINode string asciiNodeVariable bool
  | BinaryNode "64 word list" variables
  | BooleanNode "bool list" variables
  | IntNode int "64 word list" variables
  | UintNode int "64 word list" variables
  | FloatNode int "64 word list" variables

text \<open>A value of type \<open>interface{}\<close>, tagged with its dynamic type.\<close>

datatype GoValue =
    GoInt "64 word" | GoInt8 "8 word" | GoInt16 "16 word" | GoInt32 "32 word" | GoInt64 "64 word"
  | GoUint "64 word" | GoUint8 "8 word" | GoUint16 "16 word" | GoUint32 "32 word"
  | GoUint64 "64 word"
  | GoFloat32 "32 word" | GoFloat64 "64 word"
  | GoString string | GoBool bool | GoItem ItemNode

type_synonym fillValues = "string \<rightharpoonup> GoValue"

subsection \<open>Observers\<close>

fun Size :: "ItemNode \<Rightarrow> int" where
  "Size emptyItemNode = 0"
| "Size (ListNode values vars) = int (length values)"
| "Size (ASCIINode val var isValue) = (if \<not> isValue then - 1 else int (length val))"
| "Size (BinaryNode values vars) = int (length values)"
| "Size (BooleanNode values vars) = int (length values)"
| "Size (IntNode byteSize values vars) = int (length values)"
| "Size (UintNode byteSize values vars) = int (length values)"
| "Size (FloatNode byteSize values vars) = int (length values)"

text \<open>\<open>getVariableNames\<close>: the names sorted by position.\<close>

definition getVariableNames :: "variables \<Rightarrow> string list" where
  "getVariableNames variablePosition = map fst (sort_key snd variablePosition)"

text \<open>\<open>variablesSwapKeyValue\<close>, read with Go's default for a missing key, the empty string.\<close>

definition variablesSwapKeyValue :: "variables \<Rightarrow> nat \<Rightarrow> string" where
  "variablesSwapKeyValue vars i =
     (case map_of (map (\<lambda>(k, v). (v, k)) vars) i of None \<Rightarrow> [] | Some k \<Rightarrow> k)"

fun Variables :: "ItemNode \<Rightarrow> string list"
  and Variables_loop :: "(nat \<Rightarrow> string) \<Rightarrow> nat \<Rightarrow> ItemNode list \<Rightarrow> string list" where
  "Variables emptyItemNode = []"
| "Variables (ListNode values vars) = Variables_loop (variablesSwapKeyValue vars) 0 values"
| "Variables (ASCIINode val var isValue) = (if isValue then [] else [vname var])"
| "Variables (BinaryNode values vars) = getVariableNames vars"
| "Variables (BooleanNode values vars) = getVariableNames vars"
| "Variables (IntNode byteSize values vars) = getVariableNames vars"
| "Variables (UintNode byteSize values vars) = getVariableNames vars"
| "Variables (FloatNode byteSize values vars) = getVariableNames vars"
| "Variables_loop posVar i [] = []"
| "Variables_loop posVar i (item # rest) =
     (if item = emptyItemNode then [posVar i] else Variables item)
     @ Variables_loop posVar (Suc i) rest"

subsection \<open>\<open>ToBytes\<close>\<close>

text \<open>The bytes of one integer, most significant first:
  \<open>for i := byteSize - 1; i >= 0; i-- { byte(bits >> (i*8)) }\<close>.\<close>

definition valueBytes :: "int \<Rightarrow> 64 word \<Rightarrow> byte list" where
  "valueBytes byteSize bits = map (\<lambda>i. ucast (drop_bit (i * 8) bits)) (rev [0..<nat byteSize])"

definition float32Bytes :: "32 word \<Rightarrow> byte list" where
  "float32Bytes bits = [ucast (drop_bit 24 bits), ucast (drop_bit 16 bits),
                        ucast (drop_bit 8 bits), ucast bits]"

definition float64Bytes :: "64 word \<Rightarrow> byte list" where
  "float64Bytes bits = [ucast (drop_bit 56 bits), ucast (drop_bit 48 bits),
     ucast (drop_bit 40 bits), ucast (drop_bit 32 bits), ucast (drop_bit 24 bits),
     ucast (drop_bit 16 bits), ucast (drop_bit 8 bits), ucast bits]"

text \<open>The common shape of every \<open>ToBytes\<close>: header, then payload; empty on a header error.\<close>

definition withHeader :: "string \<Rightarrow> int \<Rightarrow> byte list \<Rightarrow> byte list" where
  "withHeader typ sz payload =
     (case getHeaderBytes typ sz of Inl err \<Rightarrow> [] | Inr result \<Rightarrow> result @ payload)"

text \<open>
  \<open>ASCIINode.ToBytes\<close> ranges over the runes of the value and keeps the low byte of
  each; on the values the constructor admits (every byte below 128) a rune is a byte.
\<close>

fun ToBytes :: "golib \<Rightarrow> ItemNode \<Rightarrow> byte list"
  and ToBytes_loop :: "golib \<Rightarrow> byte list \<Rightarrow> ItemNode list \<Rightarrow> byte list" where
  "ToBytes lib emptyItemNode = []"
| "ToBytes lib (ListNode values vars) =
     (if length vars \<noteq> 0 then []
      else case getHeaderBytes ''list'' (int (length values)) of
             Inl err \<Rightarrow> []
           | Inr result \<Rightarrow> ToBytes_loop lib result values)"
| "ToBytes lib (ASCIINode val var isValue) =
     (if \<not> isValue then []
      else withHeader ''ascii'' (int (length val)) (map (\<lambda>ch. of_char ch) val))"
| "ToBytes lib (BinaryNode values vars) =
     (if length vars \<noteq> 0 then []
      else withHeader ''binary'' (int (length values)) (map ucast values))"
| "ToBytes lib (BooleanNode values vars) =
     (if length vars \<noteq> 0 then []
      else withHeader ''boolean'' (int (length values)) (map (\<lambda>v. if v then 1 else 0) values))"
| "ToBytes lib (IntNode byteSize values vars) =
     (if length vars \<noteq> 0 then []
      else withHeader (''i'' @ itoa byteSize) (int (length values))
             (concat (map (valueBytes byteSize) values)))"
| "ToBytes lib (UintNode byteSize values vars) =
     (if length vars \<noteq> 0 then []
      else withHeader (''u'' @ itoa byteSize) (int (length values))
             (concat (map (valueBytes byteSize) values)))"
| "ToBytes lib (FloatNode byteSize values vars) =
     (if length vars \<noteq> 0 then []
      else withHeader (''f'' @ itoa byteSize) (int (length values))
             (if byteSize = 4
              then concat (map (\<lambda>v. float32Bytes (Float32bits lib v)) values)
              else concat (map float64Bytes values)))"
| "ToBytes_loop lib result [] = result"
| "ToBytes_loop lib result (item # rest) =
     (let childResult = ToBytes lib item in
      if length childResult = 0 then [] else ToBytes_loop lib (result @ childResult) rest)"

subsection \<open>Factory methods and rep invariants\<close>

text \<open>
  All factories run the same loop over their arguments: a value of an accepted dynamic
  type is converted and appended, a string becomes a variable at the current index (after
  the duplicate check) and the node's zero value is appended, anything else panics.  The
  loop is written once; \<open>conv\<close> is the type switch of the factory (\<open>None\<close> where the
  switch has no case for the value, an error where the case itself panics).
\<close>

fun scanValues :: "(GoValue \<Rightarrow> (error + 'a) option) \<Rightarrow> 'a \<Rightarrow> string \<Rightarrow> nat \<Rightarrow> 'a list
    \<Rightarrow> variables \<Rightarrow> GoValue list \<Rightarrow> error + ('a list \<times> variables)" where
  "scanValues conv zero typeName i nodeValues nodeVariables [] = Inr (nodeValues, nodeVariables)"
| "scanValues conv zero typeName i nodeValues nodeVariables (v # rest) =
     (case conv v of
        Some (Inl err) \<Rightarrow> Inl err
      | Some (Inr x) \<Rightarrow>
          scanValues conv zero typeName (Suc i) (nodeValues @ [x]) nodeVariables rest
      | None \<Rightarrow>
          (case v of
             GoString nm \<Rightarrow>
               if nm \<in> fst ` set nodeVariables
               then Inl (Panic ''duplicated variable name found'')
               else scanValues conv zero typeName (Suc i) (nodeValues @ [zero])
                      (nodeVariables @ [(nm, i)]) rest
           | _ \<Rightarrow> Inl (Panic (''input argument contains invalid type for '' @ typeName))))"

text \<open>
  The loop over \<open>node.variables\<close> that the \<open>checkRep\<close> of Binary, Boolean, Int, Uint and
  Float nodes share.  \<open>node.values[pos]\<close> is read before the range check, so a position out
  of range panics there.
\<close>

fun checkVariables :: "('a \<Rightarrow> bool) \<Rightarrow> 'a list \<Rightarrow> nat list \<Rightarrow> variables \<Rightarrow> error option" where
  "checkVariables isZero values visited [] = None"
| "checkVariables isZero values visited ((nm, pos) # rest) =
     (if \<not> pos < length values then Some indexOutOfRange
      else if \<not> isZero (values ! pos)
      then Some (Panic ''value in variable position isn't a zero-value'')
      else if \<not> isValidVarName nm then Some (Panic ''invalid variable name'')
      else if pos \<in> set visited then Some (Panic ''variable position is not unique'')
      else checkVariables isZero values (pos # visited) rest)"

definition sizeLimitExceeded :: "string \<Rightarrow> nat \<Rightarrow> bool" where
  "sizeLimitExceeded typ n = (getDataByteLength typ (int n) > MAX_BYTE_SIZE)"

paragraph \<open>ASCII\<close>

definition ASCIINode_checkRep :: "string \<Rightarrow> asciiNodeVariable \<Rightarrow> bool \<Rightarrow> error option" where
  "ASCIINode_checkRep val var isValue =
     (if isValue then
        (if vname var \<noteq> [] \<or> minLength var \<noteq> 0 \<or> maxLength var \<noteq> 0
         then Some (Panic ''value and variable should not be used at the same time'')
         else if \<exists>ch \<in> set val. (of_char ch :: nat) > 127
         then Some (Panic ''encountered non-ASCII character'')
         else None)
      else
        (if val \<noteq> [] then Some (Panic ''value and variable should not be used at the same time'')
         else if \<not> isValidVarName (vname var) then Some (Panic ''invalid variable name'')
         else if minLength var < 0 \<or> maxLength var < - 1
         then Some (Panic ''invalid fill-in string length'')
         else if maxLength var \<noteq> - 1 \<and> minLength var > maxLength var
         then Some (Panic ''invalid fill-in string length'')
         else None))"

definition NewASCIINode :: "string \<Rightarrow> error + ItemNode" where
  "NewASCIINode str =
     (if sizeLimitExceeded ''ascii'' (length str) then Inl (Panic ''string length limit exceeded'')
      else case ASCIINode_checkRep str (asciiNodeVariable [] 0 0) True of
             Some err \<Rightarrow> Inl err
           | None \<Rightarrow> Inr (ASCIINode str (asciiNodeVariable [] 0 0) True))"

definition NewASCIINodeVariable :: "string \<Rightarrow> int \<Rightarrow> int \<Rightarrow> error + ItemNode" where
  "NewASCIINodeVariable nm minLen maxLen =
     (case ASCIINode_checkRep [] (asciiNodeVariable nm minLen maxLen) False of
        Some err \<Rightarrow> Inl err
      | None \<Rightarrow> Inr (ASCIINode [] (asciiNodeVariable nm minLen maxLen) False))"

paragraph \<open>Binary\<close>

definition BinaryNode_conv :: "golib \<Rightarrow> GoValue \<Rightarrow> (error + 64 word) option" where
  "BinaryNode_conv lib v =
     (case v of
        GoInt x \<Rightarrow> Some (Inr x)
      | GoString str \<Rightarrow> if take 2 str = ''0b'' then Some (Inr (ParseInt lib str)) else None
      | _ \<Rightarrow> None)"

definition BinaryNode_checkRep :: "64 word list \<Rightarrow> variables \<Rightarrow> error option" where
  "BinaryNode_checkRep values vars =
     (if \<exists>v \<in> set values. \<not> (0 \<le> sint v \<and> sint v < 256) then Some (Panic ''value overflow'')
      else checkVariables (\<lambda>v. v = 0) values [] vars)"

definition NewBinaryNode :: "golib \<Rightarrow> GoValue list \<Rightarrow> error + ItemNode" where
  "NewBinaryNode lib values =
     (if sizeLimitExceeded ''binary'' (length values)
      then Inl (Panic ''item node size limit exceeded'')
      else case scanValues (BinaryNode_conv lib) 0 ''BinaryNode'' 0 [] [] values of
             Inl err \<Rightarrow> Inl err
           | Inr (nodeValues, nodeVariables) \<Rightarrow>
               (case BinaryNode_checkRep nodeValues nodeVariables of
                  Some err \<Rightarrow> Inl err
                | None \<Rightarrow> Inr (BinaryNode nodeValues nodeVariables)))"

paragraph \<open>Boolean\<close>

definition BooleanNode_conv :: "GoValue \<Rightarrow> (error + bool) option" where
  "BooleanNode_conv v = (case v of GoBool b \<Rightarrow> Some (Inr b) | _ \<Rightarrow> None)"

definition BooleanNode_checkRep :: "bool list \<Rightarrow> variables \<Rightarrow> error option" where
  "BooleanNode_checkRep values vars = checkVariables (\<lambda>v. \<not> v) values [] vars"

definition NewBooleanNode :: "GoValue list \<Rightarrow> error + ItemNode" where
  "NewBooleanNode values =
     (if sizeLimitExceeded ''binary'' (length values)
      then Inl (Panic ''item node size limit exceeded'')
      else case scanValues BooleanNode_conv False ''BooleanNode'' 0 [] [] values of
             Inl err \<Rightarrow> Inl err
           | Inr (nodeValues, nodeVariables) \<Rightarrow>
               (case BooleanNode_checkRep nodeValues nodeVariables of
                  Some err \<Rightarrow> Inl err
                | None \<Rightarrow> Inr (BooleanNode nodeValues nodeVariables)))"

paragraph \<open>Signed integers\<close>

definition IntNode_conv :: "GoValue \<Rightarrow> (error + 64 word) option" where
  "IntNode_conv v =
     (case v of
        GoInt x \<Rightarrow> Some (Inr x)
      | GoInt8 x \<Rightarrow> Some (Inr (scast x))
      | GoInt16 x \<Rightarrow> Some (Inr (scast x))
      | GoInt32 x \<Rightarrow> Some (Inr (scast x))
      | GoInt64 x \<Rightarrow> Some (Inr x)
      | GoUint x \<Rightarrow> Some (Inr x)
      | GoUint8 x \<Rightarrow> Some (Inr (ucast x))
      | GoUint16 x \<Rightarrow> Some (Inr (ucast x))
      | GoUint32 x \<Rightarrow> Some (Inr (ucast x))
      | GoUint64 x \<Rightarrow> if uint x > 2 ^ 63 - 1 then Some (Inl (Panic ''value overflow''))
                      else Some (Inr x)
      | _ \<Rightarrow> None)"

definition validByteSize :: "int \<Rightarrow> bool" where
  "validByteSize byteSize = (byteSize = 1 \<or> byteSize = 2 \<or> byteSize = 4 \<or> byteSize = 8)"

definition IntNode_checkRep :: "int \<Rightarrow> 64 word list \<Rightarrow> variables \<Rightarrow> error option" where
  "IntNode_checkRep byteSize values vars =
     (if \<not> validByteSize byteSize then Some (Panic ''invalid byte size'')
      else
        let max = (push_bit (nat (byteSize * 8 - 1)) 1 - 1 :: 64 word);
            min = (push_bit (nat (byteSize * 8 - 1)) (- 1) :: 64 word)
        in if \<exists>v \<in> set values. \<not> (sint min \<le> sint v \<and> sint v \<le> sint max)
           then Some (Panic ''value overflow'')
           else checkVariables (\<lambda>v. v = 0) values [] vars)"

definition NewIntNode :: "int \<Rightarrow> GoValue list \<Rightarrow> error + ItemNode" where
  "NewIntNode byteSize values =
     (if sizeLimitExceeded (''i'' @ itoa byteSize) (length values)
      then Inl (Panic ''item node size limit exceeded'')
      else case scanValues IntNode_conv 0 ''IntNode'' 0 [] [] values of
             Inl err \<Rightarrow> Inl err
           | Inr (nodeValues, nodeVariables) \<Rightarrow>
               (case IntNode_checkRep byteSize nodeValues nodeVariables of
                  Some err \<Rightarrow> Inl err
                | None \<Rightarrow> Inr (IntNode byteSize nodeValues nodeVariables)))"

paragraph \<open>Unsigned integers\<close>

definition UintNode_conv :: "GoValue \<Rightarrow> (error + 64 word) option" where
  "UintNode_conv v =
     (case v of
        GoInt x \<Rightarrow> Some (Inr x)
      | GoInt8 x \<Rightarrow> Some (Inr (scast x))
      | GoInt16 x \<Rightarrow> Some (Inr (scast x))
      | GoInt32 x \<Rightarrow> Some (Inr (scast x))
      | GoInt64 x \<Rightarrow> Some (Inr x)
      | GoUint x \<Rightarrow> Some (Inr x)
      | GoUint8 x \<Rightarrow> Some (Inr (ucast x))
      | GoUint16 x \<Rightarrow> Some (Inr (ucast x))
      | GoUint32 x \<Rightarrow> Some (Inr (ucast x))
      | GoUint64 x \<Rightarrow> Some (Inr x)
      | _ \<Rightarrow> None)"

definition UintNode_checkRep :: "int \<Rightarrow> 64 word list \<Rightarrow> variables \<Rightarrow> error option" where
  "UintNode_checkRep byteSize values vars =
     (if \<not> validByteSize byteSize then Some (Panic ''invalid byte size'')
      else if \<exists>v \<in> set values. \<not> (v \<le> (push_bit (nat (byteSize * 8)) 1 - 1 :: 64 word))
      then Some (Panic ''value overflow'')
      else checkVariables (\<lambda>v. v = 0) values [] vars)"

definition NewUintNode :: "int \<Rightarrow> GoValue list \<Rightarrow> error + ItemNode" where
  "NewUintNode byteSize values =
     (if sizeLimitExceeded (''u'' @ itoa byteSize) (length values)
      then Inl (Panic ''item node size limit exceeded'')
      else case scanValues UintNode_conv 0 ''UintNode'' 0 [] [] values of
             Inl err \<Rightarrow> Inl err
           | Inr (nodeValues, nodeVariables) \<Rightarrow>
               (case UintNode_checkRep byteSize nodeValues nodeVariables of
                  Some err \<Rightarrow> Inl err
                | None \<Rightarrow> Inr (UintNode byteSize nodeValues nodeVariables)))"

paragraph \<open>Floats\<close>

definition FloatNode_conv :: "golib \<Rightarrow> GoValue \<Rightarrow> (error + 64 word) option" where
  "FloatNode_conv lib v =
     (case v of
        GoInt x \<Rightarrow> Some (Inr (float64_of_int lib (sint x)))
      | GoInt8 x \<Rightarrow> Some (Inr (float64_of_int lib (sint x)))
      | GoInt16 x \<Rightarrow> Some (Inr (float64_of_int lib (sint x)))
      | GoInt32 x \<Rightarrow> Some (Inr (float64_of_int lib (sint x)))
      | GoInt64 x \<Rightarrow> Some (Inr (float64_of_int lib (sint x)))
      | GoUint x \<Rightarrow> Some (Inr (float64_of_int lib (uint x)))
      | GoUint8 x \<Rightarrow> Some (Inr (float64_of_int lib (uint x)))
      | GoUint16 x \<Rightarrow> Some (Inr (float64_of_int lib (uint x)))
      | GoUint32 x \<Rightarrow> Some (Inr (float64_of_int lib (uint x)))
      | GoUint64 x \<Rightarrow> Some (Inr (float64_of_int lib (uint x)))
      | GoFloat32 x \<Rightarrow> Some (Inr (Float32frombits lib x))
      | GoFloat64 x \<Rightarrow> Some (Inr x)
      | _ \<Rightarrow> None)"

text \<open>
  On bit patterns: infinities and NaNs are the patterns with all eleven exponent bits set;
  for the others the magnitude order is the order of the low 63 bits, so
  \<open>-max \<le> v \<le> max\<close> compares those with the bits of \<open>max\<close>; \<open>v \<noteq> 0\<close> says that they are not
  all zero.
\<close>

definition float64IsInfOrNaN :: "64 word \<Rightarrow> bool" where
  "float64IsInfOrNaN v = (v AND 0x7FF0000000000000 = 0x7FF0000000000000)"

definition MaxFloat64bits :: "64 word" where "MaxFloat64bits = 0x7FEFFFFFFFFFFFFF"
definition MaxFloat32bits :: "64 word" where "MaxFloat32bits = 0x47EFFFFFE0000000"

definition FloatNode_checkRep :: "int \<Rightarrow> 64 word list \<Rightarrow> variables \<Rightarrow> error option" where
  "FloatNode_checkRep byteSize values vars =
     (if byteSize \<noteq> 4 \<and> byteSize \<noteq> 8 then Some (Panic ''invalid byte size'')
      else
        let max = (if byteSize = 4 then MaxFloat32bits else MaxFloat64bits) in
        if \<exists>v \<in> set values. float64IsInfOrNaN v then Some (Panic ''invalid value'')
        else if \<exists>v \<in> set values. \<not> (v AND 0x7FFFFFFFFFFFFFFF \<le> max)
        then Some (Panic ''value overflow'')
        else checkVariables (\<lambda>v. v AND 0x7FFFFFFFFFFFFFFF = 0) values [] vars)"

definition NewFloatNode :: "golib \<Rightarrow> int \<Rightarrow> GoValue list \<Rightarrow> error + ItemNode" where
  "NewFloatNode lib byteSize values =
     (if sizeLimitExceeded (''f'' @ itoa byteSize) (length values)
      then Inl (Panic ''item node size limit exceeded'')
      else case scanValues (FloatNode_conv lib) 0 ''FloatNode'' 0 [] [] values of
             Inl err \<Rightarrow> Inl err
           | Inr (nodeValues, nodeVariables) \<Rightarrow>
               (case FloatNode_checkRep byteSize nodeValues nodeVariables of
                  Some err \<Rightarrow> Inl err
                | None \<Rightarrow> Inr (FloatNode byteSize nodeValues nodeVariables)))"

paragraph \<open>Lists\<close>

definition ListNode_conv :: "GoValue \<Rightarrow> (error + ItemNode) option" where
  "ListNode_conv v = (case v of GoItem item \<Rightarrow> Some (Inr item) | _ \<Rightarrow> None)"

text \<open>The loop over \<open>node.variables\<close> in \<open>ListNode.checkRep\<close>.\<close>

fun ListNode_checkVariables :: "ItemNode list \<Rightarrow> bool \<Rightarrow> nat list \<Rightarrow> variables \<Rightarrow> error option"
  where
  "ListNode_checkVariables values ellipsisExist visitedIndex [] = None"
| "ListNode_checkVariables values ellipsisExist visitedIndex ((nm, pos) # rest) =
     (if \<not> pos < length values then Some indexOutOfRange
      else if values ! pos \<noteq> emptyItemNode
      then Some (Panic ''value in variable position isn't a zero-value'')
      else if \<not> isValidVarName nm \<and> \<not> isEllipsis nm then Some (Panic ''invalid variable name'')
      else if \<not> isValidVarName nm \<and> pos = 0
      then Some (Panic ''ellipsis shouldn't be the first item in ListNode'')
      else if \<not> isValidVarName nm \<and> ellipsisExist
      then Some (Panic ''multiple ellipsis is not supported'')
      else if pos \<in> set visitedIndex then Some (Panic ''variable position is not unique'')
      else ListNode_checkVariables values (ellipsisExist \<or> \<not> isValidVarName nm)
             (pos # visitedIndex) rest)"

definition ListNode_checkRep :: "ItemNode list \<Rightarrow> variables \<Rightarrow> error option" where
  "ListNode_checkRep values vars =
     (case ListNode_checkVariables values False [] vars of
        Some err \<Rightarrow> Some err
      | None \<Rightarrow>
          if \<not> distinct (Variables (ListNode values vars))
          then Some (Panic ''duplicated variable name found in child item node'')
          else None)"

definition NewListNode :: "GoValue list \<Rightarrow> error + ItemNode" where
  "NewListNode values =
     (if sizeLimitExceeded ''list'' (length values)
      then Inl (Panic ''item node size limit exceeded'')
      else case scanValues ListNode_conv emptyItemNode ''ListNode'' 0 [] [] values of
             Inl err \<Rightarrow> Inl err
           | Inr (nodeValues, nodeVariables) \<Rightarrow>
               (case ListNode_checkRep nodeValues nodeVariables of
                  Some err \<Rightarrow> Inl err
                | None \<Rightarrow> Inr (ListNode nodeValues nodeVariables)))"

subsection \<open>Printing an ASCII node\<close>

definition hexDigit :: "nat \<Rightarrow> char" where
  "hexDigit d = (if d < 10 then char_of (48 + d) else char_of (55 + d))"

text \<open>The loop of \<open>ASCIINode.String\<close> over the value; the flag is \<open>printableState\<close>.\<close>

fun ASCIINode_String_loop :: "bool \<Rightarrow> string \<Rightarrow> string" where
  "ASCIINode_String_loop printableState [] = (if printableState then [CHR 0x22] else [])"
| "ASCIINode_String_loop printableState (ch # rest) =
     (if (of_char ch :: nat) < 32 \<or> (of_char ch :: nat) = 127
      then (if printableState then [CHR 0x22] else [])
           @ '' 0x'' @ [hexDigit (of_char ch div 16), hexDigit (of_char ch mod 16)]
           @ ASCIINode_String_loop False rest
      else (if \<not> printableState then [CHR '' '', CHR 0x22] else [])
           @ [ch] @ ASCIINode_String_loop True rest)"

definition ASCIINode_String :: "string \<Rightarrow> asciiNodeVariable \<Rightarrow> bool \<Rightarrow> string" where
  "ASCIINode_String val var isValue =
     (if \<not> isValue then
        (let min = minLength var; max = maxLength var;
             lengthStr =
               (if min = 0 \<and> max = - 1 then []
                else if min = max then ''['' @ itoa max @ '']''
                else if max = - 1 then ''['' @ itoa min @ ''..]''
                else ''['' @ itoa min @ ''..'' @ itoa max @ '']'')
         in ''<A'' @ lengthStr @ '' '' @ vname var @ ''>'')
      else if val = [] then ''<A[0]>''
      else ''<A'' @ ASCIINode_String_loop False val @ ''>'')"

subsection \<open>\<open>FillVariables\<close> of the nodes without children\<close>

text \<open>
  The loop \<open>for name, pos := range node.variables\<close> that writes the fill-in value, or the
  name itself, into \<open>nodeValues[pos]\<close>; the flag is \<open>createNew\<close>.
\<close>

fun fillPositions :: "fillValues \<Rightarrow> variables \<Rightarrow> GoValue list \<Rightarrow> bool
    \<Rightarrow> error + (GoValue list \<times> bool)" where
  "fillPositions values [] nodeValues createNew = Inr (nodeValues, createNew)"
| "fillPositions values ((nm, pos) # rest) nodeValues createNew =
     (if \<not> pos < length nodeValues then Inl indexOutOfRange
      else case values nm of
             Some v \<Rightarrow> fillPositions values rest (nodeValues[pos := v]) True
           | None \<Rightarrow> fillPositions values rest (nodeValues[pos := GoString nm]) createNew)"

definition ASCIINode_FillVariables ::
    "string \<Rightarrow> asciiNodeVariable \<Rightarrow> bool \<Rightarrow> fillValues \<Rightarrow> error + ItemNode" where
  "ASCIINode_FillVariables val var isValue values =
     (if isValue then Inr (ASCIINode val var isValue)
      else case values (vname var) of
             None \<Rightarrow> Inr (ASCIINode val var isValue)
           | Some (GoString str) \<Rightarrow>
               if int (length str) < minLength var
               then Inl (Panic ''fill-in string length overflow'')
               else if maxLength var \<noteq> - 1 \<and> maxLength var < int (length str)
               then Inl (Panic ''fill-in string length overflow'')
               else NewASCIINode str
           | Some _ \<Rightarrow> Inl (Panic ''fill-in value has invalid type for ASCIINode''))"

text \<open>The body shared by the \<open>FillVariables\<close> of Binary, Boolean, Int, Uint and Float nodes:
  \<open>boxed\<close> are the node's values as \<open>interface{}\<close>, \<open>factory\<close> is the node's factory.\<close>

definition typedFillVariables :: "ItemNode \<Rightarrow> variables \<Rightarrow> GoValue list
    \<Rightarrow> (GoValue list \<Rightarrow> error + ItemNode) \<Rightarrow> fillValues \<Rightarrow> error + ItemNode" where
  "typedFillVariables node vars boxed factory values =
     (if length vars = 0 then Inr node
      else case fillPositions values vars boxed False of
             Inl err \<Rightarrow> Inl err
           | Inr (nodeValues, createNew) \<Rightarrow>
               if \<not> createNew then Inr node else factory nodeValues)"

definition BinaryNode_FillVariables ::
    "golib \<Rightarrow> 64 word list \<Rightarrow> variables \<Rightarrow> fillValues \<Rightarrow> error + ItemNode" where
  "BinaryNode_FillVariables lib vals vars values =
     typedFillVariables (BinaryNode vals vars) vars (map GoInt vals) (NewBinaryNode lib) values"

definition BooleanNode_FillVariables ::
    "bool list \<Rightarrow> variables \<Rightarrow> fillValues \<Rightarrow> error + ItemNode" where
  "BooleanNode_FillVariables vals vars values =
     typedFillVariables (BooleanNode vals vars) vars (map GoBool vals) NewBooleanNode values"

definition IntNode_FillVariables ::
    "int \<Rightarrow> 64 word list \<Rightarrow> variables \<Rightarrow> fillValues \<Rightarrow> error + ItemNode" where
  "IntNode_FillVariables byteSize vals vars values =
     typedFillVariables (IntNode byteSize vals vars) vars (map GoInt64 vals)
       (NewIntNode byteSize) values"

definition UintNode_FillVariables ::
    "int \<Rightarrow> 64 word list \<Rightarrow> variables \<Rightarrow> fillValues \<Rightarrow> error + ItemNode" where
  "UintNode_FillVariables byteSize vals vars values =
     typedFillVariables (UintNode byteSize vals vars) vars (map GoUint64 vals)
       (NewUintNode byteSize) values"

definition FloatNode_FillVariables ::
    "golib \<Rightarrow> int \<Rightarrow> 64 word list \<Rightarrow> variables \<Rightarrow> fillValues \<Rightarrow> error + ItemNode" where
  "FloatNode_FillVariables lib byteSize vals vars values =
     typedFillVariables (FloatNode byteSize vals vars) vars (map GoFloat64 vals)
       (NewFloatNode lib byteSize) values"

subsection \<open>Ellipsis expansion (the list node file)\<close>

record fillState =
  currentDimension :: int
  currentIndices :: "int list"
  ellipsisCount :: int
  multipleEllipsis :: bool

definition newFillState :: "int \<Rightarrow> fillState" where
  "newFillState remainingEllipsisCount =
     \<lparr>currentDimension = 0, currentIndices = [], ellipsisCount = 0,
      multipleEllipsis = (remainingEllipsisCount > 1)\<rparr>"

definition growDimension :: "fillState \<Rightarrow> error + fillState" where
  "growDimension state =
     (if currentDimension state = int (length (currentIndices state))
      then Inr (state\<lparr>currentIndices := currentIndices state @ [0],
                     currentDimension := currentDimension state + 1\<rparr>)
      else if 0 \<le> currentDimension state
              \<and> currentDimension state < int (length (currentIndices state))
      then Inr (state\<lparr>currentIndices := (currentIndices state)[nat (currentDimension state) := 0],
                     currentDimension := currentDimension state + 1\<rparr>)
      else Inl indexOutOfRange)"

definition exitDimension :: "fillState \<Rightarrow> fillState" where
  "exitDimension state = state\<lparr>currentDimension := currentDimension state - 1\<rparr>"

definition getCurrentDimensionIndex :: "fillState \<Rightarrow> error + int" where
  "getCurrentDimensionIndex state =
     (let i = currentDimension state - 1 in
      if 0 \<le> i \<and> i < int (length (currentIndices state))
      then Inr (currentIndices state ! nat i) else Inl indexOutOfRange)"

definition growIndex :: "fillState \<Rightarrow> error + fillState" where
  "growIndex state =
     (let i = currentDimension state - 1 in
      if 0 \<le> i \<and> i < int (length (currentIndices state))
      then Inr (state\<lparr>currentIndices :=
                       (currentIndices state)[nat i := currentIndices state ! nat i + 1]\<rparr>)
      else Inl indexOutOfRange)"

definition getNewVariableName :: "fillState \<Rightarrow> string \<Rightarrow> error + (string \<times> fillState)" where
  "getNewVariableName state nm =
     (if isEllipsis nm then
        (if multipleEllipsis state
         then Inr (''...['' @ itoa (ellipsisCount state) @ '']'',
                   state\<lparr>ellipsisCount := ellipsisCount state + 1\<rparr>)
         else Inr (''...'', state))
      else if currentDimension state > int (length (currentIndices state))
      then Inl indexOutOfRange
      else Inr (nm @ concat (map (\<lambda>idx. ''['' @ itoa idx @ '']'')
                           (take (nat (currentDimension state)) (currentIndices state))),
                state))"

text \<open>\<open>splitValues\<close>: the entries with an ellipsis key, and the others.\<close>

definition splitValues :: "fillValues \<Rightarrow> fillValues \<times> fillValues" where
  "splitValues values =
     ((\<lambda>k. if isEllipsis k then values k else None),
      (\<lambda>k. if isEllipsis k then None else values k))"

text \<open>
  \<open>ellipsisAnalysis\<close>.  The counters are Go \<open>int\<close>s; they are modelled without wrap-around,
  which would take more than \<open>2^63\<close> repetitions.
\<close>

fun ellipsisAnalysis_vars :: "fillValues \<Rightarrow> variables \<Rightarrow> int \<times> int \<times> int
    \<Rightarrow> error + (int \<times> int \<times> int)" where
  "ellipsisAnalysis_vars values [] acc = Inr acc"
| "ellipsisAnalysis_vars values ((nm, pos) # rest) (ellipsisToFill, ellipsisRemaining, ellipsisValue) =
     (if isEllipsis nm then
        (case values nm of
           Some (GoInt n) \<Rightarrow> ellipsisAnalysis_vars values rest (1, ellipsisRemaining, sint n)
         | Some _ \<Rightarrow> Inl (Panic ''interface conversion: interface {} is not int'')
         | None \<Rightarrow> ellipsisAnalysis_vars values rest (ellipsisToFill, 1, ellipsisValue))
      else ellipsisAnalysis_vars values rest (ellipsisToFill, ellipsisRemaining, ellipsisValue))"

fun ellipsisAnalysis :: "fillValues \<Rightarrow> ItemNode list \<Rightarrow> variables \<Rightarrow> error + (int \<times> int)"
  and ellipsisAnalysis_loop :: "fillValues \<Rightarrow> int \<Rightarrow> ItemNode list \<Rightarrow> int \<times> int
    \<Rightarrow> error + (int \<times> int)" where
  "ellipsisAnalysis values vs vars =
     (case ellipsisAnalysis_vars values vars (0, 0, 0) of
        Inl err \<Rightarrow> Inl err
      | Inr (ellipsisToFill, ellipsisRemaining, ellipsisValue) \<Rightarrow>
          ellipsisAnalysis_loop values ellipsisValue vs (ellipsisToFill, ellipsisRemaining))"
| "ellipsisAnalysis_loop values ellipsisValue [] acc = Inr acc"
| "ellipsisAnalysis_loop values ellipsisValue (item # rest) (ellipsisToFill, ellipsisRemaining) =
     (case item of
        ListNode cvs cvars \<Rightarrow>
          (case ellipsisAnalysis values cvs cvars of
             Inl err \<Rightarrow> Inl err
           | Inr (ef, er) \<Rightarrow>
               ellipsisAnalysis_loop values ellipsisValue rest
                 (ellipsisToFill + (ellipsisValue + 1) * ef,
                  ellipsisRemaining + (ellipsisValue + 1) * er))
      | _ \<Rightarrow> ellipsisAnalysis_loop values ellipsisValue rest (ellipsisToFill, ellipsisRemaining))"

text \<open>The first loop of \<open>fillEllipsis\<close>: position and value of the ellipsis to fill, if any.\<close>

definition findEllipsis :: "fillValues \<Rightarrow> variables \<Rightarrow> fillState
    \<Rightarrow> error + (int \<times> int \<times> fillState)" where
  "findEllipsis values vars state =
     (case find (\<lambda>(nm, pos). values nm \<noteq> None \<and> isEllipsis nm) vars of
        None \<Rightarrow> Inr (- 1, 0, state)
      | Some (nm, pos) \<Rightarrow>
          (case values nm of
             Some (GoInt n) \<Rightarrow>
               if sint n > 0
               then (case growDimension state of
                       Inl err \<Rightarrow> Inl err
                     | Inr state' \<Rightarrow> Inr (int pos, sint n, state'))
               else Inr (int pos, sint n, state)
           | _ \<Rightarrow> Inl (Panic ''interface conversion: interface {} is not int'')))"

text \<open>
  The ``repeat handling'' at the head of the main loop: whether the iteration ends here
  (\<open>continue\<close>), the index to go on with, and the state.
\<close>

definition repeatHandling :: "int \<Rightarrow> int \<Rightarrow> nat \<Rightarrow> fillState
    \<Rightarrow> error + (bool \<times> nat \<times> fillState)" where
  "repeatHandling ellipsisPosition ellipsisValue i state =
     (if int i = ellipsisPosition then
        (if ellipsisValue = 0 then Inr (True, i, state)
         else case getCurrentDimensionIndex state of
                Inl err \<Rightarrow> Inl err
              | Inr idx \<Rightarrow>
                  if idx < ellipsisValue
                  then (case growIndex state of
                          Inl err \<Rightarrow> Inl err
                        | Inr state' \<Rightarrow> Inr (False, 0, state'))
                  else Inr (True, i, exitDimension state))
      else Inr (False, i, state))"

fun renameAll :: "fillState \<Rightarrow> string list \<Rightarrow> fillValues \<Rightarrow> error + (fillValues \<times> fillState)"
  where
  "renameAll state [] fill = Inr (fill, state)"
| "renameAll state (v # vs) fill =
     (case getNewVariableName state v of
        Inl err \<Rightarrow> Inl err
      | Inr (nm, state') \<Rightarrow> renameAll state' vs (fill(v \<mapsto> GoString nm)))"

text \<open>The \<open>default\<close> case of the type switch; \<open>fillVariables\<close> is the item's own method.\<close>

definition renameTyped :: "(fillValues \<Rightarrow> error + ItemNode) \<Rightarrow> ItemNode \<Rightarrow> fillState
    \<Rightarrow> error + (GoValue \<times> fillState)" where
  "renameTyped fillVariables item state =
     (let variables = Variables item in
      if length variables = 0 then Inr (GoItem item, state)
      else case renameAll state variables Map.empty of
             Inl err \<Rightarrow> Inl err
           | Inr (fill, state') \<Rightarrow>
               (case fillVariables fill of
                  Inl err \<Rightarrow> Inl err
                | Inr node \<Rightarrow> Inr (GoItem node, state')))"

text \<open>
  \<open>fillEllipsis\<close> and its main loop.  The loop resets its own counter, and the bound of the
  repetition lives in the shared state, so both functions count down a fuel.
\<close>

fun fillEllipsis :: "nat \<Rightarrow> golib \<Rightarrow> fillValues \<Rightarrow> ItemNode list \<Rightarrow> variables \<Rightarrow> fillState
    \<Rightarrow> (error + (ItemNode \<times> fillState)) option"
  and fillEllipsis_loop :: "nat \<Rightarrow> golib \<Rightarrow> fillValues \<Rightarrow> ItemNode list \<Rightarrow> variables
    \<Rightarrow> int \<Rightarrow> int \<Rightarrow> nat \<Rightarrow> GoValue list \<Rightarrow> fillState
    \<Rightarrow> (error + (ItemNode \<times> fillState)) option"
  where
  "fillEllipsis 0 lib values vs vars state = None"
| "fillEllipsis (Suc k) lib values vs vars state =
     (case findEllipsis values vars state of
        Inl err \<Rightarrow> Some (Inl err)
      | Inr (ellipsisPosition, ellipsisValue, state') \<Rightarrow>
          fillEllipsis_loop k lib values vs vars ellipsisPosition ellipsisValue 0 [] state')"
| "fillEllipsis_loop 0 lib values vs vars ellipsisPosition ellipsisValue i nodeValues state = None"
| "fillEllipsis_loop (Suc k) lib values vs vars ellipsisPosition ellipsisValue i nodeValues state =
     (if \<not> i < length vs then
        (case NewListNode nodeValues of
           Inl err \<Rightarrow> Some (Inl err)
         | Inr node \<Rightarrow> Some (Inr (node, state)))
      else case repeatHandling ellipsisPosition ellipsisValue i state of
        Inl err \<Rightarrow> Some (Inl err)
      | Inr (continue, i', state') \<Rightarrow>
          if continue
          then fillEllipsis_loop k lib values vs vars ellipsisPosition ellipsisValue (Suc i')
                 nodeValues state'
          else
            (case
               (case vs ! i' of
                  ListNode cvs cvars \<Rightarrow>
                    (case fillEllipsis k lib values cvs cvars state' of
                       None \<Rightarrow> None
                     | Some (Inl err) \<Rightarrow> Some (Inl err)
                     | Some (Inr (node, state'')) \<Rightarrow> Some (Inr (GoItem node, state'')))
                | ASCIINode val var isValue \<Rightarrow>
                    if isValue then Some (Inr (GoItem (vs ! i'), state'))
                    else (case getNewVariableName state' (vname var) of
                            Inl err \<Rightarrow> Some (Inl err)
                          | Inr (varName, state'') \<Rightarrow>
                              (case NewASCIINodeVariable varName (minLength var) (maxLength var) of
                                 Inl err \<Rightarrow> Some (Inl err)
                               | Inr node \<Rightarrow> Some (Inr (GoItem node, state''))))
                | emptyItemNode \<Rightarrow>
                    (case getNewVariableName state' (variablesSwapKeyValue vars i') of
                       Inl err \<Rightarrow> Some (Inl err)
                     | Inr (varName, state'') \<Rightarrow> Some (Inr (GoString varName, state'')))
                | BinaryNode vals cvars \<Rightarrow>
                    Some (renameTyped (BinaryNode_FillVariables lib vals cvars) (vs ! i') state')
                | BooleanNode vals cvars \<Rightarrow>
                    Some (renameTyped (BooleanNode_FillVariables vals cvars) (vs ! i') state')
                | IntNode byteSize vals cvars \<Rightarrow>
                    Some (renameTyped (IntNode_FillVariables byteSize vals cvars) (vs ! i') state')
                | UintNode byteSize vals cvars \<Rightarrow>
                    Some (renameTyped (UintNode_FillVariables byteSize vals cvars) (vs ! i') state')
                | FloatNode byteSize vals cvars \<Rightarrow>
                    Some (renameTyped (FloatNode_FillVariables lib byteSize vals cvars)
                            (vs ! i') state'))
             of
               None \<Rightarrow> None
             | Some (Inl err) \<Rightarrow> Some (Inl err)
             | Some (Inr (v, state'')) \<Rightarrow>
                 fillEllipsis_loop k lib values vs vars ellipsisPosition ellipsisValue (Suc i')
                   (nodeValues @ [v]) state''))"

subsection \<open>\<open>FillVariables\<close>\<close>

text \<open>
  The method of the interface, dispatched on the node.  \<open>ListNode.FillVariables\<close> recurses
  into the children of the list that \<open>fillEllipsis\<close> returned, so it counts down the same
  fuel.
\<close>

fun FillVariables :: "nat \<Rightarrow> golib \<Rightarrow> ItemNode \<Rightarrow> fillValues \<Rightarrow> (error + ItemNode) option"
  and FillVariables_loop :: "nat \<Rightarrow> golib \<Rightarrow> ItemNode list \<Rightarrow> fillValues
    \<Rightarrow> (error + GoValue list) option" where
  "FillVariables k lib emptyItemNode values = Some (Inr emptyItemNode)"
| "FillVariables k lib (ASCIINode val var isValue) values =
     Some (ASCIINode_FillVariables val var isValue values)"
| "FillVariables k lib (BinaryNode vals vars) values =
     Some (BinaryNode_FillVariables lib vals vars values)"
| "FillVariables k lib (BooleanNode vals vars) values =
     Some (BooleanNode_FillVariables vals vars values)"
| "FillVariables k lib (IntNode byteSize vals vars) values =
     Some (IntNode_FillVariables byteSize vals vars values)"
| "FillVariables k lib (UintNode byteSize vals vars) values =
     Some (UintNode_FillVariables byteSize vals vars values)"
| "FillVariables k lib (FloatNode byteSize vals vars) values =
     Some (FloatNode_FillVariables lib byteSize vals vars values)"
| "FillVariables 0 lib (ListNode vs vars) values = None"
| "FillVariables (Suc k) lib (ListNode vs vars) values =
     (let (ellipsisValues, otherValues) = splitValues values in
      case ellipsisAnalysis ellipsisValues vs vars of
        Inl err \<Rightarrow> Some (Inl err)
      | Inr (ellipsisToFill, ellipsisRemaining) \<Rightarrow>
          (case (if ellipsisToFill > 0
                 then (case fillEllipsis k lib ellipsisValues vs vars
                              (newFillState ellipsisRemaining) of
                         None \<Rightarrow> None
                       | Some (Inl err) \<Rightarrow> Some (Inl err)
                       | Some (Inr (node, state)) \<Rightarrow> Some (Inr node))
                 else Some (Inr (ListNode vs vars))) of
             None \<Rightarrow> None
           | Some (Inl err) \<Rightarrow> Some (Inl err)
           | Some (Inr (ListNode vs' vars')) \<Rightarrow>
               (case FillVariables_loop k lib vs' otherValues of
                  None \<Rightarrow> None
                | Some (Inl err) \<Rightarrow> Some (Inl err)
                | Some (Inr nodeValues) \<Rightarrow>
                    (case fillPositions otherValues vars' nodeValues False of
                       Inl err \<Rightarrow> Some (Inl err)
                     | Inr (nodeValues', createNew) \<Rightarrow> Some (NewListNode nodeValues')))
           | Some (Inr _) \<Rightarrow>
               Some (Inl (Panic ''interface conversion: ItemNode is not *ListNode''))))"
| "FillVariables_loop k lib [] values = Some (Inr [])"
| "FillVariables_loop k lib (item # rest) values =
     (case FillVariables k lib item values of
        None \<Rightarrow> None
      | Some (Inl err) \<Rightarrow> Some (Inl err)
      | Some (Inr node) \<Rightarrow>
          (case FillVariables_loop k lib rest values of
             None \<Rightarrow> None
           | Some (Inl err) \<Rightarrow> Some (Inl err)
           | Some (Inr nodeValues) \<Rightarrow> Some (Inr (GoItem node # nodeValues))))"

section \<open>SECS-II data messages (ast.go)\<close>

record DataMessage =
  name :: string
  stream :: int
  func :: int
  waitBit :: int
  direction :: string
  dataItem :: "ItemNode option"
  sessionID :: int
  systemBytes :: "byte list"

text \<open>
  \<open>dataItem\<close> is a value of the interface \<open>ItemNode\<close>: a node, or \<open>nil\<close>, which is \<open>None\<close> here.
  Calling a method of the \<open>nil\<close> interface panics.
\<close>

definition nilDereference :: error where
  "nilDereference = Panic ''invalid memory address or nil pointer dereference''"

text \<open>\<open>checkRep\<close>, with the checks in the order of the source.  The loop over the runes of
  the name does not run for the empty name.  The data item is not read.\<close>

definition DataMessage_checkRep :: "golib \<Rightarrow> DataMessage \<Rightarrow> error option" where
  "DataMessage_checkRep lib node =
     (if name node \<noteq> [] \<and> hasSpaceRune lib (name node)
      then Some (Panic ''message name shouldn't contain whitespaces'')
      else if \<not> (0 \<le> stream node \<and> stream node < 128) then Some (Panic ''stream code out of range'')
      else if \<not> (0 \<le> func node \<and> func node < 256) then Some (Panic ''function code out of range'')
      else if waitBit node = 1 \<and> func node mod 2 = 0
      then Some (Panic ''wait bit = true is not valid for reply message'')
      else if \<not> (0 \<le> waitBit node \<and> waitBit node \<le> 2) then Some (Panic ''invalid wait bit'')
      else if \<not> (- 1 \<le> sessionID node \<and> sessionID node < 65536)
      then Some (Panic ''session id out of range'')
      else if length (systemBytes node) \<noteq> 4 then Some (Panic ''system bytes length is not 4'')
      else if direction node \<noteq> ''H->E'' \<and> direction node \<noteq> ''H<-E'' \<and> direction node \<noteq> ''H<->E''
      then Some (Panic ''invalid direction'')
      else None)"

definition checked :: "golib \<Rightarrow> DataMessage \<Rightarrow> error + DataMessage" where
  "checked lib message =
     (case DataMessage_checkRep lib message of Some err \<Rightarrow> Inl err | None \<Rightarrow> Inr message)"

text \<open>\<open>systemBytesCopy\<close>: four zero bytes overwritten by at most the first four bytes given.\<close>

definition systemBytesCopy :: "byte list \<Rightarrow> byte list" where
  "systemBytesCopy bs = take 4 bs @ replicate (4 - length bs) 0"

definition NewDataMessage ::
    "golib \<Rightarrow> string \<Rightarrow> int \<Rightarrow> int \<Rightarrow> int \<Rightarrow> string \<Rightarrow> ItemNode option
     \<Rightarrow> error + DataMessage" where
  "NewDataMessage lib nm strm fn wbit dir item =
     checked lib \<lparr>name = nm, stream = strm, func = fn, waitBit = wbit, direction = dir,
                   dataItem = item, sessionID = - 1, systemBytes = [0, 0, 0, 0]\<rparr>"

definition NewHSMSDataMessage ::
    "golib \<Rightarrow> string \<Rightarrow> int \<Rightarrow> int \<Rightarrow> int \<Rightarrow> string \<Rightarrow> ItemNode option \<Rightarrow> int
     \<Rightarrow> byte list \<Rightarrow> error + DataMessage" where
  "NewHSMSDataMessage lib nm strm fn wbit dir item sid sbytes =
     (if wbit \<noteq> 0 \<and> wbit \<noteq> 1
      then Inl (Panic ''wait bit should be 0 or 1 when creating HSMS convertible message'')
      else if sid = - 1
      then Inl (Panic ''sessionID should be in range of [0, 65535) when creating HSMS convertible message'')
      else case item of
        None \<Rightarrow> Inl nilDereference
      | Some node \<Rightarrow>
          if length (Variables node) \<noteq> 0
          then Inl (Panic ''data item should not contain variables when creating HSMS convertible message'')
          else checked lib \<lparr>name = nm, stream = strm, func = fn, waitBit = wbit,
                             direction = dir, dataItem = item, sessionID = sid,
                             systemBytes = systemBytesCopy sbytes\<rparr>)"

definition WaitBit :: "DataMessage \<Rightarrow> error + string" where
  "WaitBit node =
     (if waitBit node = 0 then Inr ''false''
      else if waitBit node = 1 then Inr ''true''
      else if waitBit node = 2 then Inr ''optional''
      else Inl (Panic ''rep invariant broken''))"

definition SetWaitBit :: "golib \<Rightarrow> DataMessage \<Rightarrow> bool \<Rightarrow> error + DataMessage" where
  "SetWaitBit lib node wbit =
     (if waitBit node \<noteq> 2 then Inr node
      else checked lib (node\<lparr>waitBit := (if wbit then 1 else 0)\<rparr>))"

definition SetSessionIDAndSystemBytes ::
    "golib \<Rightarrow> DataMessage \<Rightarrow> int \<Rightarrow> byte list \<Rightarrow> error + DataMessage" where
  "SetSessionIDAndSystemBytes lib node sid sbytes =
     checked lib (node\<lparr>sessionID := sid, systemBytes := systemBytesCopy sbytes\<rparr>)"

definition DataMessage_Variables :: "DataMessage \<Rightarrow> error + string list" where
  "DataMessage_Variables node =
     (case dataItem node of None \<Rightarrow> Inl nilDereference | Some item \<Rightarrow> Inr (Variables item))"

definition DataMessage_FillVariables ::
    "nat \<Rightarrow> golib \<Rightarrow> DataMessage \<Rightarrow> fillValues \<Rightarrow> (error + DataMessage) option" where
  "DataMessage_FillVariables fuel lib node values =
     (case dataItem node of
        None \<Rightarrow> Some (Inl nilDereference)
      | Some item \<Rightarrow>
          (case FillVariables fuel lib item values of
             None \<Rightarrow> None
           | Some (Inl err) \<Rightarrow> Some (Inl err)
           | Some (Inr item') \<Rightarrow> Some (checked lib (node\<lparr>dataItem := Some item'\<rparr>))))"

text \<open>
  \<open>ToBytes\<close>.  \<open>WaitBit()\<close> panics outside the three wait-bit values,
  \<open>node.Variables()\<close> panics on the \<open>nil\<close> item (it is not called when the wait bit is
  optional: \<open>||\<close> evaluates from the left) and \<open>node.systemBytes[:4]\<close> panics on fewer than four
  bytes; all are branches here.
\<close>

definition DataMessage_ToBytes :: "golib \<Rightarrow> DataMessage \<Rightarrow> error + byte list" where
  "DataMessage_ToBytes lib node =
     (case WaitBit node of
        Inl err \<Rightarrow> Inl err
      | Inr wb \<Rightarrow>
          if wb = ''optional'' then Inr []
          else case DataMessage_Variables node of
            Inl err \<Rightarrow> Inl err
          | Inr variables \<Rightarrow>
              if length variables \<noteq> 0 \<or> sessionID node = - 1 then Inr []
              else case dataItem node of
                None \<Rightarrow> Inl nilDereference
              | Some item \<Rightarrow>
                  let itemBytes = ToBytes lib item;
                      msgLength = (word_of_int (int (length itemBytes) + 10) :: 32 word);
                      headerByte2 = stream node + (if wb = ''true'' then 128 else 0)
                  in if length (systemBytes node) < 4 then Inl indexOutOfRange
                     else Inr ([ucast (drop_bit 24 msgLength), ucast (drop_bit 16 msgLength),
                                ucast (drop_bit 8 msgLength), ucast msgLength,
                                byte_shr (sessionID node) 8, byte_shr (sessionID node) 0,
                                byte_shr headerByte2 0, byte_shr (func node) 0, 0, 0]
                               @ take 4 (systemBytes node) @ itemBytes))"

section \<open>The HSMS decoder (parser.go)\<close>

datatype HSMSMessage = DataMsg DataMessage | ControlMsg ControlMessage

text \<open>
  A Go slice of bytes: its elements, and the bytes of its backing array behind them, up
  to the capacity.  An index expression \<open>s[i]\<close> is bounded by the length; a slice expression
  \<open>s[lo:hi]\<close> is bounded by the capacity, so it can reach the bytes behind the elements.
\<close>

record byteSlice =
  elems :: "byte list"
  spare :: "byte list"

text \<open>A slice whose capacity is its length, as \<open>ToBytes\<close> returns it.\<close>

definition exactSlice :: "byte list \<Rightarrow> byteSlice" where
  "exactSlice bs = \<lparr>elems = bs, spare = []\<rparr>"

text \<open>The parser state.\<close>

record parser =
  input :: byteSlice
  pos :: nat
  msgLength :: int
  msg :: "HSMSMessage option"

text \<open>\<open>binary.BigEndian.Uint16/32/64\<close> on a slice of the right length.\<close>

definition bigEndian :: "byte list \<Rightarrow> 'a::len word" where
  "bigEndian bs = foldl (\<lambda>acc b. push_bit 8 acc OR ucast b) 0 bs"

text \<open>The elements of \<open>s[lo:hi]\<close>, which panics unless \<open>lo \<le> hi \<le> cap(s)\<close>.\<close>

definition slice :: "byteSlice \<Rightarrow> nat \<Rightarrow> nat \<Rightarrow> error + byte list" where
  "slice s lo hi =
     (if hi > length (elems s) + length (spare s) \<or> lo > hi then Inl indexOutOfRange
      else Inr (take (hi - lo) (drop lo (elems s @ spare s))))"

definition parseMessageLength :: "parser \<Rightarrow> bool \<times> parser" where
  "parseMessageLength p =
     (if length (elems (input p)) < 14 then (False, p)
      else
        let lengthBytes = take 4 (elems (input p));
            p = p\<lparr>pos := pos p + 4\<rparr>;
            p = p\<lparr>msgLength := uint (bigEndian lengthBytes :: 32 word)\<rparr>
        in (int (length (drop (pos p) (elems (input p)))) = msgLength p, p))"

text \<open>
  The length loop of \<open>parseMessageText\<close>, as written: \<open>length += int(b << shift)\<close>, where
  \<open>b\<close> is a \<open>byte\<close>, so the shift is a shift of eight bits' width.
\<close>

fun decodeLength :: "nat \<Rightarrow> nat \<Rightarrow> byte list \<Rightarrow> int" where
  "decodeLength lengthBytesCount i [] = 0"
| "decodeLength lengthBytesCount i (b # rest) =
     uint (push_bit ((lengthBytesCount - i - 1) * 8) b) + decodeLength lengthBytesCount (Suc i) rest"

text \<open>\<open>string(v)\<close> for a byte \<open>v\<close>: the UTF-8 encoding of the code point \<open>v\<close>.\<close>

definition runeString :: "byte \<Rightarrow> string" where
  "runeString v =
     (if v < 128 then [char_of (unat v)]
      else [char_of (unat (192 OR drop_bit 6 v)), char_of (unat (128 OR (v AND 63)))])"

text \<open>
  The chunks \<open>p.input[start:end]\<close> of a numeric payload.  They are slice expressions, bounded
  by the capacity; for the byte size 1, \<open>parseInt\<close> and \<open>parseUint\<close> read \<open>p.input[p.pos+i]\<close>, an
  index expression, bounded by the length (\<open>indexed\<close>).
\<close>

fun chunks :: "nat \<Rightarrow> nat \<Rightarrow> byte list \<Rightarrow> byte list list" where
  "chunks byteSize 0 bs = []"
| "chunks byteSize (Suc n) bs = take byteSize bs # chunks byteSize n (drop byteSize bs)"

definition numericPayload :: "parser \<Rightarrow> nat \<Rightarrow> int \<Rightarrow> bool
    \<Rightarrow> (error + byte list list) option" where
  "numericPayload p byteSize len indexed =
     (if len mod int byteSize \<noteq> 0 then None
      else if nat len div byteSize \<noteq> 0
              \<and> pos p + nat len > length (elems (input p))
                                   + (if indexed then 0 else length (spare (input p)))
      then Some (Inl indexOutOfRange)
      else Some (Inr (chunks byteSize (nat len div byteSize)
                        (drop (pos p) (elems (input p) @ spare (input p))))))"

definition parseFloat :: "golib \<Rightarrow> parser \<Rightarrow> nat \<Rightarrow> int
    \<Rightarrow> error + ((ItemNode \<times> bool) \<times> parser)" where
  "parseFloat lib p byteSize len =
     (case numericPayload p byteSize len False of
        None \<Rightarrow> Inr ((emptyItemNode, False), p)
      | Some (Inl err) \<Rightarrow> Inl err
      | Some (Inr cs) \<Rightarrow>
          (case NewFloatNode lib (int byteSize)
                  (map (\<lambda>c. if byteSize = 4 then GoFloat32 (bigEndian c)
                             else GoFloat64 (bigEndian c)) cs) of
             Inl err \<Rightarrow> Inl err
           | Inr node \<Rightarrow> Inr ((node, True), p\<lparr>pos := pos p + nat len\<rparr>)))"

definition parseInt :: "parser \<Rightarrow> nat \<Rightarrow> int \<Rightarrow> error + ((ItemNode \<times> bool) \<times> parser)" where
  "parseInt p byteSize len =
     (case numericPayload p byteSize len (byteSize = 1) of
        None \<Rightarrow> Inr ((emptyItemNode, False), p)
      | Some (Inl err) \<Rightarrow> Inl err
      | Some (Inr cs) \<Rightarrow>
          (case NewIntNode (int byteSize)
                  (map (\<lambda>c. if byteSize = 1 then GoInt8 (bigEndian c)
                             else if byteSize = 2 then GoInt16 (bigEndian c)
                             else if byteSize = 4 then GoInt32 (bigEndian c)
                             else GoInt64 (bigEndian c)) cs) of
             Inl err \<Rightarrow> Inl err
           | Inr node \<Rightarrow> Inr ((node, True), p\<lparr>pos := pos p + nat len\<rparr>)))"

definition parseUint :: "parser \<Rightarrow> nat \<Rightarrow> int \<Rightarrow> error + ((ItemNode \<times> bool) \<times> parser)" where
  "parseUint p byteSize len =
     (case numericPayload p byteSize len (byteSize = 1) of
        None \<Rightarrow> Inr ((emptyItemNode, False), p)
      | Some (Inl err) \<Rightarrow> Inl err
      | Some (Inr cs) \<Rightarrow>
          (case NewUintNode (int byteSize)
                  (map (\<lambda>c. if byteSize = 1 then GoUint8 (bigEndian c)
                             else if byteSize = 2 then GoUint16 (bigEndian c)
                             else if byteSize = 4 then GoUint32 (bigEndian c)
                             else GoUint64 (bigEndian c)) cs) of
             Inl err \<Rightarrow> Inl err
           | Inr node \<Rightarrow> Inr ((node, True), p\<lparr>pos := pos p + nat len\<rparr>)))"

text \<open>The cases of \<open>parseMessageText\<close> other than the list.\<close>

definition parseScalar :: "golib \<Rightarrow> parser \<Rightarrow> byte \<Rightarrow> int
    \<Rightarrow> error + ((ItemNode \<times> bool) \<times> parser)" where
  "parseScalar lib p fmt len =
     (if fmt = 16 then
        (case slice (input p) (pos p) (pos p + nat len) of
           Inl err \<Rightarrow> Inl err
         | Inr bs \<Rightarrow>
             (case NewASCIINode (concat (map runeString bs)) of
                Inl err \<Rightarrow> Inl err
              | Inr node \<Rightarrow> Inr ((node, True), p\<lparr>pos := pos p + nat len\<rparr>)))
      else if fmt = 8 then
        (case slice (input p) (pos p) (pos p + nat len) of
           Inl err \<Rightarrow> Inl err
         | Inr bs \<Rightarrow>
             (case NewBinaryNode lib (map GoUint8 bs) of
                Inl err \<Rightarrow> Inl err
              | Inr node \<Rightarrow> Inr ((node, True), p\<lparr>pos := pos p + nat len\<rparr>)))
      else if fmt = 9 then
        (case slice (input p) (pos p) (pos p + nat len) of
           Inl err \<Rightarrow> Inl err
         | Inr bs \<Rightarrow>
             (case NewBooleanNode (map (\<lambda>v. GoBool (v \<noteq> 0)) bs) of
                Inl err \<Rightarrow> Inl err
              | Inr node \<Rightarrow> Inr ((node, True), p\<lparr>pos := pos p + nat len\<rparr>)))
      else if fmt = 36 then parseFloat lib p 4 len
      else if fmt = 32 then parseFloat lib p 8 len
      else if fmt = 25 then parseInt p 1 len
      else if fmt = 26 then parseInt p 2 len
      else if fmt = 28 then parseInt p 4 len
      else if fmt = 24 then parseInt p 8 len
      else if fmt = 41 then parseUint p 1 len
      else if fmt = 42 then parseUint p 2 len
      else if fmt = 44 then parseUint p 4 len
      else if fmt = 40 then parseUint p 8 len
      else Inr ((emptyItemNode, False), p))"

text \<open>
  \<open>parseMessageText\<close>, with the loop over the children of a list as a second function.
  Each call reads at least the format byte, so the depth of the recursion is bounded by
  the input; the functions count down a fuel, and \<open>Parse\<close> starts them with more fuel than
  the input has bytes.
\<close>

fun parseMessageText :: "nat \<Rightarrow> golib \<Rightarrow> parser
    \<Rightarrow> (error + ((ItemNode \<times> bool) \<times> parser)) option"
  and parseChildren :: "nat \<Rightarrow> golib \<Rightarrow> nat \<Rightarrow> GoValue list \<Rightarrow> parser
    \<Rightarrow> (error + ((ItemNode \<times> bool) \<times> parser)) option" where
  "parseMessageText 0 lib p = None"
| "parseMessageText (Suc k) lib p =
     (if msgLength p = 10 then Some (Inr ((emptyItemNode, True), p))
      else if \<not> pos p < length (elems (input p)) then Some (Inl indexOutOfRange)
      else
        let formatCode = drop_bit 2 (elems (input p) ! pos p);
            lengthBytesCount = unat (elems (input p) ! pos p AND 3)
        in if lengthBytesCount = 0 then Some (Inr ((emptyItemNode, False), p))
           else
             let p = p\<lparr>pos := pos p + 1\<rparr> in
             case slice (input p) (pos p) (pos p + lengthBytesCount) of
               Inl err \<Rightarrow> Some (Inl err)
             | Inr lengthBytes \<Rightarrow>
                 let len = decodeLength lengthBytesCount 0 lengthBytes;
                     p = p\<lparr>pos := pos p + lengthBytesCount\<rparr>
                 in if formatCode = 0 then parseChildren k lib (nat len) [] p
                    else Some (parseScalar lib p formatCode len))"
| "parseChildren k lib 0 values p =
     (case NewListNode values of
        Inl err \<Rightarrow> Some (Inl err)
      | Inr node \<Rightarrow> Some (Inr ((node, True), p)))"
| "parseChildren k lib (Suc n) values p =
     (case parseMessageText k lib p of
        None \<Rightarrow> None
      | Some (Inl err) \<Rightarrow> Some (Inl err)
      | Some (Inr ((item, ok), p')) \<Rightarrow>
          if \<not> ok then Some (Inr ((emptyItemNode, False), p'))
          else parseChildren k lib n (values @ [GoItem item]) p')"

definition parseMessage :: "nat \<Rightarrow> golib \<Rightarrow> parser \<Rightarrow> (error + (bool \<times> parser)) option" where
  "parseMessage fuel lib p =
     (case slice (input p) (pos p) (pos p + 10) of
        Inl err \<Rightarrow> Some (Inl err)
      | Inr headerBytes \<Rightarrow>
          let p = p\<lparr>pos := pos p + 10\<rparr> in
          if headerBytes ! 4 \<noteq> 0 then Some (Inr (False, p))
          else if headerBytes ! 5 = 0 then
            (let strm = uint (headerBytes ! 2 AND 127);
                 fn = uint (headerBytes ! 3);
                 wbit = uint (drop_bit 7 (headerBytes ! 2));
                 sid = uint (bigEndian (take 2 headerBytes) :: 16 word);
                 sbytes = take 4 (drop 6 headerBytes)
             in case parseMessageText fuel lib p of
                  None \<Rightarrow> None
                | Some (Inl err) \<Rightarrow> Some (Inl err)
                | Some (Inr ((item, ok), p)) \<Rightarrow>
                    if \<not> ok then Some (Inr (False, p))
                    else (case NewHSMSDataMessage lib [] strm fn wbit ''H<->E'' (Some item) sid
                                 sbytes of
                            Inl err \<Rightarrow> Some (Inl err)
                          | Inr m \<Rightarrow> Some (Inr (True, p\<lparr>msg := Some (DataMsg m)\<rparr>))))
          else if headerBytes ! 5 \<in> {sTypeSelectReq, sTypeSelectRsp, sTypeDeselectReq,
                 sTypeDeselectRsp, sTypeLinktestReq, sTypeLinktestRsp, sTypeRejectReq,
                 sTypeSeparateReq}
          then (case NewHSMSControlMessage headerBytes of
                  Inl err \<Rightarrow> Some (Inl err)
                | Inr m \<Rightarrow> Some (Inr (True, p\<lparr>msg := Some (ControlMsg m)\<rparr>)))
          else Some (Inr (False, p)))"

text \<open>
  \<open>Parse\<close>: the message (\<open>None\<close> for \<open>nil\<close>) and \<open>ok\<close>.  The deferred \<open>recover\<close> turns every
  panic into \<open>ok = false\<close>, with the message result still \<open>nil\<close>.
\<close>

definition Parse :: "golib \<Rightarrow> byteSlice \<Rightarrow> (HSMSMessage option \<times> bool) option" where
  "Parse lib bytes =
     (let p = \<lparr>input = bytes, pos = 0, msgLength = 0, msg = None\<rparr> in
      case parseMessageLength p of
        (False, p) \<Rightarrow> Some (msg p, False)
      | (True, p) \<Rightarrow>
          (case parseMessage (Suc (length (elems bytes))) lib p of
             None \<Rightarrow> None
           | Some (Inl err) \<Rightarrow> Some (None, False)
           | Some (Inr (False, p)) \<Rightarrow> Some (msg p, False)
           | Some (Inr (True, p)) \<Rightarrow> Some (msg p, True)))"

section \<open>Nodes that the factories can return\<close>

text \<open>
  The fields of a node are private, so every node of a running program was returned by a
  factory: it is within the size limit, it passed \<open>checkRep\<close>, and so did the nodes below
  it.  \<open>constructed\<close> collects these checks (the size limit of a Boolean node is computed
  with the type name \<open>binary\<close>, as the factory does).
\<close>

fun constructed :: "ItemNode \<Rightarrow> bool" where
  "constructed emptyItemNode = True"
| "constructed (ListNode vs vars) =
     (\<not> sizeLimitExceeded ''list'' (length vs) \<and> ListNode_checkRep vs vars = None
      \<and> (\<forall>v \<in> set vs. constructed v))"
| "constructed (ASCIINode val var isValue) =
     ((isValue \<longrightarrow> \<not> sizeLimitExceeded ''ascii'' (length val))
      \<and> ASCIINode_checkRep val var isValue = None)"
| "constructed (BinaryNode vals vars) =
     (\<not> sizeLimitExceeded ''binary'' (length vals) \<and> BinaryNode_checkRep vals vars = None)"
| "constructed (BooleanNode vals vars) =
     (\<not> sizeLimitExceeded ''binary'' (length vals) \<and> BooleanNode_checkRep vals vars = None)"
| "constructed (IntNode byteSize vals vars) =
     (\<not> sizeLimitExceeded (''i'' @ itoa byteSize) (length vals)
      \<and> IntNode_checkRep byteSize vals vars = None)"
| "constructed (UintNode byteSize vals vars) =
     (\<not> sizeLimitExceeded (''u'' @ itoa byteSize) (length vals)
      \<and> UintNode_checkRep byteSize vals vars = None)"
| "constructed (FloatNode byteSize vals vars) =
     (\<not> sizeLimitExceeded (''f'' @ itoa byteSize) (length vals)
      \<and> FloatNode_checkRep byteSize vals vars = None)"

text \<open>The type name that the node's \<open>ToBytes\<close> passes to \<open>getHeaderBytes\<close>.\<close>

fun headerType :: "ItemNode \<Rightarrow> string" where
  "headerType emptyItemNode = []"
| "headerType (ListNode vs vars) = ''list''"
| "headerType (ASCIINode val var isValue) = ''ascii''"
| "headerType (BinaryNode vals vars) = ''binary''"
| "headerType (BooleanNode vals vars) = ''boolean''"
| "headerType (IntNode byteSize vals vars) = ''i'' @ itoa byteSize"
| "headerType (UintNode byteSize vals vars) = ''u'' @ itoa byteSize"
| "headerType (FloatNode byteSize vals vars) = ''f'' @ itoa byteSize"

text \<open>
  The length field as the specification words it: one byte up to 255, two up to 65535,
  three beyond, most significant byte first.
\<close>

definition minimalLengthBytes :: "int \<Rightarrow> byte list" where
  "minimalLengthBytes n =
     (if n \<le> 255 then [word_of_int n]
      else if n \<le> 65535 then [word_of_int (n div 256), word_of_int n]
      else [word_of_int (n div 65536), word_of_int (n div 256), word_of_int n])"

text \<open>The number that a sequence of bytes denotes, most significant byte first.\<close>

definition bigEndianValue :: "byte list \<Rightarrow> int" where
  "bigEndianValue bs = foldl (\<lambda>acc b. acc * 256 + uint b) 0 bs"

text \<open>
  An encoded item, read as the wire format has it: the two low bits of the format byte
  are the number of length bytes; the length bytes follow the format byte; the payload is
  what follows them.
\<close>

definition lengthByteCount :: "byte list \<Rightarrow> nat" where
  "lengthByteCount bs = unat (hd bs AND 3)"

definition lengthField :: "byte list \<Rightarrow> byte list" where
  "lengthField bs = take (lengthByteCount bs) (tl bs)"

definition payloadOf :: "byte list \<Rightarrow> byte list" where
  "payloadOf bs = drop (Suc (lengthByteCount bs)) bs"

text \<open>The bytes that one element of an item takes on the wire (a list has no such width).\<close>

fun elementWidth :: "ItemNode \<Rightarrow> int" where
  "elementWidth (ASCIINode val var isValue) = 1"
| "elementWidth (BinaryNode vals vars) = 1"
| "elementWidth (BooleanNode vals vars) = 1"
| "elementWidth (IntNode byteSize vals vars) = byteSize"
| "elementWidth (UintNode byteSize vals vars) = byteSize"
| "elementWidth (FloatNode byteSize vals vars) = byteSize"
| "elementWidth (ListNode vs vars) = 0"
| "elementWidth emptyItemNode = 0"

text \<open>
  The number that the length field of an encoded item is compared with: for a list the
  number of its children, for every other item the number of its payload bytes, as they
  stand in the encoding.
\<close>

fun countedLength :: "golib \<Rightarrow> ItemNode \<Rightarrow> int" where
  "countedLength lib (ListNode vs vars) = int (length vs)"
| "countedLength lib item = int (length (payloadOf (ToBytes lib item)))"

text \<open>
  A library for evaluating concrete examples in which no float conversion, no binary
  literal and no message name occurs: every conversion is constant.
\<close>

definition nolib :: golib where
  "nolib = \<lparr>Float32bits = (\<lambda>v. 0), Float32frombits = (\<lambda>b. 0), float64_of_int = (\<lambda>n. 0),
            ParseInt = (\<lambda>str. 0), hasSpaceRune = (\<lambda>str. False)\<rparr>"

section \<open>Messages that a program can hold\<close>

text \<open>
  The fields of a \<open>DataMessage\<close> are private: a program obtains a message from one of the
  two factories, or from one of the three methods that return a new message.
\<close>

inductive reachable :: "golib \<Rightarrow> DataMessage \<Rightarrow> bool" for lib :: golib where
  byNewDataMessage:
    "NewDataMessage lib nm strm fn wbit dir item = Inr m \<Longrightarrow> reachable lib m"
| byNewHSMSDataMessage:
    "NewHSMSDataMessage lib nm strm fn wbit dir item sid sbytes = Inr m \<Longrightarrow> reachable lib m"
| bySetWaitBit:
    "reachable lib m \<Longrightarrow> SetWaitBit lib m wb = Inr m' \<Longrightarrow> reachable lib m'"
| bySetSessionIDAndSystemBytes:
    "reachable lib m \<Longrightarrow> SetSessionIDAndSystemBytes lib m sid sbytes = Inr m'
     \<Longrightarrow> reachable lib m'"
| byFillVariables:
    "reachable lib m \<Longrightarrow> DataMessage_FillVariables fuel lib m vals = Some (Inr m')
     \<Longrightarrow> reachable lib m'"

section \<open>Filling one variable\<close>

text \<open>
  What the factory loop \<open>scanValues\<close> returns when it does not panic, as two functions of its
  argument list: the variables it records, and the value it stores for one argument.
\<close>

fun scannedVars :: "(GoValue \<Rightarrow> (error + 'a) option) \<Rightarrow> nat \<Rightarrow> GoValue list \<Rightarrow> variables" where
  "scannedVars conv i [] = []"
| "scannedVars conv i (x # xs) =
     (case conv x of
        None \<Rightarrow> (case x of GoString nm \<Rightarrow> [(nm, i)] | _ \<Rightarrow> [])
      | Some y \<Rightarrow> [])
     @ scannedVars conv (Suc i) xs"

definition scannedVal :: "(GoValue \<Rightarrow> (error + 'a) option) \<Rightarrow> 'a \<Rightarrow> GoValue \<Rightarrow> 'a" where
  "scannedVal conv zero x = (case conv x of Some (Inr y) \<Rightarrow> y | _ \<Rightarrow> zero)"

text \<open>The name at a position of \<open>node.variables\<close>, if there is one.\<close>

definition slotName :: "variables \<Rightarrow> nat \<Rightarrow> string option" where
  "slotName vars i = map_of (map (\<lambda>(k, v). (v, k)) vars) i"

text \<open>
  The nesting depth of lists in an item: \<open>ListNode.FillVariables\<close> calls itself on the
  children, so this is the fuel that filling the item takes.
\<close>

fun depth :: "ItemNode \<Rightarrow> nat"
  and depths :: "ItemNode list \<Rightarrow> nat" where
  "depth (ListNode vs vars) = Suc (depths vs)"
| "depth emptyItemNode = 0"
| "depth (ASCIINode val var isValue) = 0"
| "depth (BinaryNode vals vars) = 0"
| "depth (BooleanNode vals vars) = 0"
| "depth (IntNode byteSize vals vars) = 0"
| "depth (UintNode byteSize vals vars) = 0"
| "depth (FloatNode byteSize vals vars) = 0"
| "depths [] = 0"
| "depths (c # cs) = max (depth c) (depths cs)"

text \<open>
  A fill-in value \<open>x\<close> that every slot named \<open>v\<close> of an item takes as a value: where \<open>v\<close> is a
  variable of a Binary, Boolean, Int, Uint or Float node, the type switch of the node's
  factory has a case for \<open>x\<close> (a string without such a case would be taken for a variable
  name); where \<open>v\<close> is a variable of a list, \<open>x\<close> is an item, not the Empty sentinel, and has
  no variables of its own.  An ASCII node checks the type of the value itself.
\<close>

fun acceptable :: "golib \<Rightarrow> string \<Rightarrow> GoValue \<Rightarrow> ItemNode \<Rightarrow> bool" where
  "acceptable lib v x emptyItemNode = True"
| "acceptable lib v x (ASCIINode val var isValue) = True"
| "acceptable lib v x (BinaryNode vals vars) =
     (v \<in> fst ` set vars \<longrightarrow> BinaryNode_conv lib x \<noteq> None)"
| "acceptable lib v x (BooleanNode vals vars) =
     (v \<in> fst ` set vars \<longrightarrow> BooleanNode_conv x \<noteq> None)"
| "acceptable lib v x (IntNode byteSize vals vars) =
     (v \<in> fst ` set vars \<longrightarrow> IntNode_conv x \<noteq> None)"
| "acceptable lib v x (UintNode byteSize vals vars) =
     (v \<in> fst ` set vars \<longrightarrow> UintNode_conv x \<noteq> None)"
| "acceptable lib v x (FloatNode byteSize vals vars) =
     (v \<in> fst ` set vars \<longrightarrow> FloatNode_conv lib x \<noteq> None)"
| "acceptable lib v x (ListNode vs vars) =
     ((v \<in> fst ` set vars \<longrightarrow>
         (case x of GoItem it \<Rightarrow> it \<noteq> emptyItemNode \<and> Variables it = [] | _ \<Rightarrow> False))
      \<and> (\<forall>c \<in> set vs. acceptable lib v x c))"

section \<open>Theorems\<close>

subsection \<open>Item headers\<close>

lemma word8_of_small_int_zero:
  "0 \<le> (m::int) \<Longrightarrow> m < 256 \<Longrightarrow> (word_of_int m :: 8 word) = 0 \<longleftrightarrow> m = 0"
  unfolding word_of_int_eq_0_iff by auto

lemma byte_shr_zero_iff:
  assumes "0 \<le> (n::int)" "n < 256 * 2 ^ k"
  shows "byte_shr n k = 0 \<longleftrightarrow> n < 2 ^ k"
proof -
  obtain m where m: "n = int m" using assms(1) by (metis nonneg_int_cases)
  have lt: "m < 256 * 2 ^ k" using assms(2) unfolding m
    by (metis of_nat_less_iff of_nat_mult of_nat_numeral of_nat_power)
  have small: "m div 2 ^ k < 256" using lt by (rule less_mult_imp_div_less)
  have eq: "drop_bit k n = int (m div 2 ^ k)"
    by (simp add: m drop_bit_eq_div zdiv_int)
  have "byte_shr n k = 0 \<longleftrightarrow> int (m div 2 ^ k) = 0"
    unfolding eq byte_shr_def using small by (intro word8_of_small_int_zero) simp_all
  also have "\<dots> \<longleftrightarrow> m < 2 ^ k" by (simp add: div_eq_0_iff)
  also have "\<dots> \<longleftrightarrow> n < 2 ^ k" unfolding m
    by (metis of_nat_less_iff of_nat_numeral of_nat_power)
  finally show ?thesis .
qed

lemma getHeaderBytes_minimal:
  assumes "0 \<le> getDataByteLength ty sz" "getDataByteLength ty sz \<le> MAX_BYTE_SIZE"
  shows "getHeaderBytes ty sz =
     Inr (word_of_int (4 * formatCode ty
                       + int (length (minimalLengthBytes (getDataByteLength ty sz))))
           # minimalLengthBytes (getDataByteLength ty sz))"
proof -
  let ?n = "getDataByteLength ty sz"
  have n: "0 \<le> ?n" "?n < 256 * 2 ^ 16" using assms by (simp_all add: MAX_BYTE_SIZE_def)
  have z16: "byte_shr ?n 16 = 0 \<longleftrightarrow> ?n < 2 ^ 16" by (rule byte_shr_zero_iff [OF n])
  have z8: "?n < 2 ^ 16 \<Longrightarrow> byte_shr ?n 8 = 0 \<longleftrightarrow> ?n < 2 ^ 8"
    by (rule byte_shr_zero_iff [OF n(1)]) simp
  show ?thesis
    using assms(2) z16 z8
    by (auto simp add: getHeaderBytes_def Let_def minimalLengthBytes_def byte_shr_def
        drop_bit_eq_div push_bit_eq_mult mult.commute)
qed

lemma minimalLengthBytes_length:
  "length (minimalLengthBytes n) = (if n \<le> 255 then 1 else if n \<le> 65535 then 2 else 3)"
  by (simp add: minimalLengthBytes_def)

lemma minimalLengthBytes_no_leading_zero:
  assumes "0 < n" "n \<le> 2 ^ 24 - 1"
  shows "hd (minimalLengthBytes n) \<noteq> 0"
  using byte_shr_zero_iff[of n 16] byte_shr_zero_iff[of n 8] byte_shr_zero_iff[of n 0] assms
  by (auto simp add: minimalLengthBytes_def byte_shr_def drop_bit_eq_div)

lemma uint_byte_of_int: "uint (word_of_int k :: byte) = k mod 256"
  by (simp add: uint_word_of_int take_bit_eq_mod)

lemma minimalLengthBytes_value:
  assumes "0 \<le> n" "n \<le> 2 ^ 24 - 1"
  shows "bigEndianValue (minimalLengthBytes n) = n"
proof -
  define a where "a = n div 256"
  have n_eq: "a * 256 + n mod 256 = n" by (simp add: a_def)
  have a_nonneg: "0 \<le> a" using assms(1) by (simp add: a_def pos_imp_zdiv_nonneg_iff)
  have a_eq: "a div 256 * 256 + a mod 256 = a" by simp
  have top: "n div 65536 = a div 256" by (simp add: a_def zdiv_zmult2_eq)
  have a_lt: "a < 65536" using assms(2)
    by (simp add: a_def zdiv_mono1 [of n 16777215 256, simplified] order.strict_trans1)
  have top_small: "a div 256 < 256" "0 \<le> a div 256"
    using a_lt a_nonneg
    by (simp_all add: pos_imp_zdiv_nonneg_iff zdiv_mono1 [of a 65535 256, simplified]
        order.strict_trans1)
  show ?thesis
  proof (cases "n \<le> 255")
    case True
    then show ?thesis using assms(1)
      by (simp add: minimalLengthBytes_def bigEndianValue_def uint_byte_of_int)
  next
    case False
    note big = this
    show ?thesis
    proof (cases "n \<le> 65535")
      case True
      have "a < 256" using True
        by (simp add: a_def zdiv_mono1 [of n 65535 256, simplified] order.strict_trans1)
      then have "a mod 256 = a" using a_nonneg by simp
      then show ?thesis using big True n_eq
        by (simp add: minimalLengthBytes_def bigEndianValue_def uint_byte_of_int a_def)
    next
      case False
      have "(a div 256) mod 256 = a div 256" using top_small by simp
      then show ?thesis using big False n_eq a_eq top
        by (simp add: minimalLengthBytes_def bigEndianValue_def uint_byte_of_int
            a_def [symmetric])
    qed
  qed
qed

lemma format_byte_low_bits:
  assumes "0 \<le> l" "l < 4"
  shows "(word_of_int (4 * c + l) :: byte) AND 3 = word_of_int l"
proof -
  have "(word_of_int (4 * c + l) :: byte) AND 3 = take_bit 2 (word_of_int (4 * c + l))"
    by (simp add: take_bit_eq_mask mask_eq_exp_minus_1)
  also have "\<dots> = word_of_int (take_bit 2 (4 * c + l))"
    using take_bit_of_int by blast
  also have "take_bit 2 (4 * c + l) = l" using assms by (simp add: take_bit_eq_mod)
  finally show ?thesis .
qed

subsection \<open>\<open>ToBytes\<close> of the items\<close>

lemma ToBytes_loop_eq:
  "ToBytes_loop lib result vs =
     (if \<forall>v \<in> set vs. ToBytes lib v \<noteq> [] then result @ concat (map (ToBytes lib) vs) else [])"
  by (induction vs arbitrary: result) (auto simp: Let_def)

lemma Variables_loop_Nil_iff:
  "Variables_loop posVar i vs = [] \<longleftrightarrow> (\<forall>v \<in> set vs. v \<noteq> emptyItemNode \<and> Variables v = [])"
  by (induction vs arbitrary: i) auto

lemma getVariableNames_Nil_iff [simp]: "getVariableNames vars = [] \<longleftrightarrow> vars = []"
  by (simp add: getVariableNames_def flip: length_0_conv)

lemma ToBytes_variables_empty: "Variables item \<noteq> [] \<Longrightarrow> ToBytes lib item = []"
proof (induction item)
  case (ListNode vs vars)
  show ?case
  proof (cases "vars = []")
    case True
    from ListNode.prems obtain v where v: "v \<in> set vs" "v = emptyItemNode \<or> Variables v \<noteq> []"
      by (auto simp: Variables_loop_Nil_iff)
    then have "ToBytes lib v = []" using ListNode.IH by auto
    with v(1) show ?thesis by (auto simp: ToBytes_loop_eq split: sum.splits)
  qed simp
qed auto

lemma bytePerValue_nonneg: "0 \<le> bytePerValue ty"
  by (simp add: bytePerValue_def)

lemma getDataByteLength_nonneg: "0 \<le> getDataByteLength ty (int n)"
  by (simp add: getDataByteLength_def bytePerValue_nonneg)

lemma withHeader_minimal:
  assumes "\<not> sizeLimitExceeded ty n"
  shows "withHeader ty (int n) payload =
     word_of_int (4 * formatCode ty
         + int (length (minimalLengthBytes (getDataByteLength ty (int n)))))
       # minimalLengthBytes (getDataByteLength ty (int n)) @ payload"
  using assms getHeaderBytes_minimal [OF getDataByteLength_nonneg, of ty n]
  by (simp add: withHeader_def sizeLimitExceeded_def)

lemma ListNode_checkVariables_None:
  "ListNode_checkVariables vs e visited ((nm, p) # rest) = None
   \<Longrightarrow> p < length vs \<and> vs ! p = emptyItemNode"
  by (auto split: if_splits)

lemma ListNode_no_variables:
  assumes "ListNode_checkRep vs vars = None" "Variables (ListNode vs vars) = []"
  shows "vars = []"
proof (cases vars)
  case (Cons a rest)
  obtain nm p where a: "a = (nm, p)" by (cases a)
  from assms(1) have "ListNode_checkVariables vs False [] ((nm, p) # rest) = None"
    by (simp add: ListNode_checkRep_def Cons a del: ListNode_checkVariables.simps
        split: option.splits)
  then have "p < length vs" "vs ! p = emptyItemNode"
    using ListNode_checkVariables_None by blast+
  then have "emptyItemNode \<in> set vs" by (metis nth_mem)
  with assms(2) show ?thesis by (auto simp: Variables_loop_Nil_iff)
qed simp

lemma getDataByteLength_boolean:
  "getDataByteLength ''boolean'' n = getDataByteLength ''binary'' n"
  by (simp add: getDataByteLength_def bytePerValue_def)

lemma constructed_size_limit:
  assumes "constructed item" "Variables item = []"
  shows "0 \<le> getDataByteLength (headerType item) (Size item)
         \<and> getDataByteLength (headerType item) (Size item) \<le> 2 ^ 24 - 1"
  using assms
  by (cases item)
     (auto simp: sizeLimitExceeded_def MAX_BYTE_SIZE_def getDataByteLength_boolean
        getDataByteLength_nonneg getDataByteLength_def [of "[]"] bytePerValue_def [of "[]"]
        split: if_splits)

lemma ToBytes_header:
  assumes "constructed item" "item \<noteq> emptyItemNode" "Variables item = []"
  shows "\<exists>payload. ToBytes lib item =
     word_of_int (4 * formatCode (headerType item)
         + int (length (minimalLengthBytes (getDataByteLength (headerType item) (Size item)))))
       # minimalLengthBytes (getDataByteLength (headerType item) (Size item)) @ payload"
  using assms
proof (induction item)
  case (ListNode vs vars)
  have vars: "vars = []" using ListNode.prems by (auto intro: ListNode_no_variables)
  have "\<forall>v \<in> set vs. ToBytes lib v \<noteq> []"
  proof
    fix v assume v: "v \<in> set vs"
    with ListNode.prems have "constructed v" "v \<noteq> emptyItemNode" "Variables v = []"
      by (auto simp: Variables_loop_Nil_iff)
    with ListNode.IH [OF v] show "ToBytes lib v \<noteq> []" by auto
  qed
  moreover have "\<not> sizeLimitExceeded ''list'' (length vs)" using ListNode.prems by simp
  ultimately show ?case
    using getHeaderBytes_minimal [OF getDataByteLength_nonneg, of "''list''" "length vs"]
    by (auto simp: vars ToBytes_loop_eq sizeLimitExceeded_def)
next
  case (BooleanNode vals vars)
  then have "\<not> sizeLimitExceeded ''boolean'' (length vals)"
    by (simp add: sizeLimitExceeded_def getDataByteLength_boolean)
  with BooleanNode show ?case by (simp add: withHeader_minimal)
qed (auto simp: withHeader_minimal split: if_splits)

lemma valueBytes_length: "length (valueBytes byteSize v) = nat byteSize"
  by (simp add: valueBytes_def)

lemma concat_fixed_length:
  "(\<And>x. length (f x) = k) \<Longrightarrow> length (concat (map f xs)) = length xs * k"
  by (induction xs) simp_all

lemma itoa_byte_sizes: "itoa 1 = ''1''" "itoa 2 = ''2''" "itoa 4 = ''4''" "itoa 8 = ''8''"
  by code_simp+

text \<open>The encoding of an item, with its payload.\<close>

lemma ToBytes_payload:
  assumes "constructed item" "item \<noteq> emptyItemNode" "Variables item = []"
  defines "n0 \<equiv> getDataByteLength (headerType item) (Size item)"
  shows "\<exists>payload. ToBytes lib item =
       word_of_int (4 * formatCode (headerType item) + int (length (minimalLengthBytes n0)))
         # minimalLengthBytes n0 @ payload
     \<and> (case item of
          ListNode vs vars \<Rightarrow> payload = concat (map (ToBytes lib) vs) \<and> n0 = int (length vs)
        | _ \<Rightarrow> int (length payload) = n0 \<and> n0 = Size item * elementWidth item)"
proof (cases item)
  case emptyItemNode
  then show ?thesis using assms(2) by simp
next
  case (ListNode vs vars)
  have vars: "vars = []" using assms(1,3) ListNode by (auto intro: ListNode_no_variables)
  have "\<forall>v \<in> set vs. ToBytes lib v \<noteq> []"
  proof
    fix v assume v: "v \<in> set vs"
    with assms(1,3) ListNode have "constructed v" "v \<noteq> emptyItemNode" "Variables v = []"
      by (auto simp: Variables_loop_Nil_iff)
    from ToBytes_header [OF this, of lib] show "ToBytes lib v \<noteq> []" by auto
  qed
  moreover have "\<not> sizeLimitExceeded ''list'' (length vs)" using assms(1) ListNode by simp
  ultimately show ?thesis
    using getHeaderBytes_minimal [OF getDataByteLength_nonneg, of "''list''" "length vs"]
    by (auto simp: ListNode n0_def vars ToBytes_loop_eq sizeLimitExceeded_def
        getDataByteLength_def bytePerValue_def)
next
  case (ASCIINode val var isValue)
  then show ?thesis using assms(1,3)
    by (auto simp: n0_def withHeader_minimal getDataByteLength_def bytePerValue_def
        split: if_splits)
next
  case (BinaryNode vals vars)
  then show ?thesis using assms(1,3)
    by (auto simp: n0_def withHeader_minimal getDataByteLength_def bytePerValue_def)
next
  case (BooleanNode vals vars)
  moreover have "\<not> sizeLimitExceeded ''boolean'' (length vals)"
    using assms(1) BooleanNode by (simp add: sizeLimitExceeded_def getDataByteLength_boolean)
  ultimately show ?thesis using assms(3)
    by (auto simp: n0_def withHeader_minimal getDataByteLength_def bytePerValue_def)
next
  case (IntNode byteSize vals vars)
  have bs: "byteSize = 1 \<or> byteSize = 2 \<or> byteSize = 4 \<or> byteSize = 8"
    using assms(1) IntNode by (auto simp: IntNode_checkRep_def validByteSize_def split: if_splits)
  have len: "length (concat (map (valueBytes byteSize) vals)) = length vals * nat byteSize"
    by (rule concat_fixed_length) (rule valueBytes_length)
  show ?thesis using assms(1,3) IntNode bs len
    by (auto simp: n0_def withHeader_minimal getDataByteLength_def bytePerValue_def
        itoa_byte_sizes)
next
  case (UintNode byteSize vals vars)
  have bs: "byteSize = 1 \<or> byteSize = 2 \<or> byteSize = 4 \<or> byteSize = 8"
    using assms(1) UintNode
    by (auto simp: UintNode_checkRep_def validByteSize_def split: if_splits)
  have len: "length (concat (map (valueBytes byteSize) vals)) = length vals * nat byteSize"
    by (rule concat_fixed_length) (rule valueBytes_length)
  show ?thesis using assms(1,3) UintNode bs len
    by (auto simp: n0_def withHeader_minimal getDataByteLength_def bytePerValue_def
        itoa_byte_sizes)
next
  case (FloatNode byteSize vals vars)
  have bs: "byteSize = 4 \<or> byteSize = 8"
    using assms(1) FloatNode by (auto simp: FloatNode_checkRep_def split: if_splits)
  have l4: "length (concat (map (\<lambda>v. float32Bytes (Float32bits lib v)) vals)) = length vals * 4"
    by (rule concat_fixed_length) (simp add: float32Bytes_def)
  have l8: "length (concat (map float64Bytes vals)) = length vals * 8"
    by (rule concat_fixed_length) (simp add: float64Bytes_def)
  show ?thesis using assms(1,3) FloatNode bs l4 l8
    by (auto simp: n0_def withHeader_minimal getDataByteLength_def bytePerValue_def
        itoa_byte_sizes)
qed

text \<open>Reading the header back.\<close>

lemma read_header:
  fixes fb :: byte
  assumes "length lb \<le> 3" "fb AND 3 = word_of_nat (length lb)"
  shows "lengthByteCount (fb # lb @ payload) = length lb"
    and "lengthField (fb # lb @ payload) = lb"
    and "payloadOf (fb # lb @ payload) = payload"
proof -
  have "unat (word_of_nat (length lb) :: byte) = length lb"
    using assms(1) by (simp add: unat_of_nat)
  then show k: "lengthByteCount (fb # lb @ payload) = length lb"
    using assms(2) by (simp add: lengthByteCount_def)
  show "lengthField (fb # lb @ payload) = lb" by (simp add: lengthField_def k)
  show "payloadOf (fb # lb @ payload) = payload" by (simp add: payloadOf_def k)
qed

text \<open>
  Claim C4, with the number that the length field holds made precise.  Let \<open>item\<close> be a
  node that the factories can return, other than the empty node, with no variable left,
  and \<open>bs\<close> its encoding: a format byte, the length bytes that its two low bits announce,
  and the payload.  Let \<open>n\<close> be the number of payload bytes, and for a list the number of
  children.  Then \<open>0 \<le> n \<le> 2^24 - 1\<close>; there is one length byte for \<open>n \<le> 255\<close>, two for
  \<open>n \<le> 65535\<close> and three otherwise; the length bytes denote \<open>n\<close>, most significant byte
  first, with no leading zero byte, except that \<open>n = 0\<close> is the single byte 0.  The payload
  of a list is the encodings of its children, one after the other; the payload of any
  other item has as many bytes as the item has elements, times the width of an element.
\<close>

theorem ToBytes_length_field:
  fixes lib :: golib
  assumes "constructed item" "item \<noteq> emptyItemNode" "Variables item = []"
  defines "bs \<equiv> ToBytes lib item" and "n \<equiv> countedLength lib item"
  shows "0 \<le> n \<and> n \<le> 2 ^ 24 - 1
     \<and> bs = hd bs # lengthField bs @ payloadOf bs
     \<and> length (lengthField bs) = lengthByteCount bs
     \<and> lengthByteCount bs = (if n \<le> 255 then 1 else if n \<le> 65535 then 2 else 3)
     \<and> bigEndianValue (lengthField bs) = n
     \<and> (n \<noteq> 0 \<longrightarrow> hd (lengthField bs) \<noteq> 0)
     \<and> (n = 0 \<longrightarrow> lengthField bs = [0])
     \<and> (\<forall>vs vars. item = ListNode vs vars \<longrightarrow> payloadOf bs = concat (map (ToBytes lib) vs))
     \<and> ((\<forall>vs vars. item \<noteq> ListNode vs vars)
          \<longrightarrow> int (length (payloadOf bs)) = Size item * elementWidth item)"
proof -
  define n0 where "n0 = getDataByteLength (headerType item) (Size item)"
  define fb :: byte where
    "fb = word_of_int (4 * formatCode (headerType item) + int (length (minimalLengthBytes n0)))"
  obtain payload where bytes: "bs = fb # minimalLengthBytes n0 @ payload"
    and pl: "case item of
          ListNode vs vars \<Rightarrow> payload = concat (map (ToBytes lib) vs) \<and> n0 = int (length vs)
        | _ \<Rightarrow> int (length payload) = n0 \<and> n0 = Size item * elementWidth item"
    using ToBytes_payload [OF assms(1-3), of lib] unfolding n0_def fb_def bs_def by blast
  have bounds: "0 \<le> n0" "n0 \<le> 2 ^ 24 - 1"
    using constructed_size_limit [OF assms(1) assms(3)] by (simp_all add: n0_def)
  have len: "length (minimalLengthBytes n0)
      = (if n0 \<le> 255 then 1 else if n0 \<le> 65535 then 2 else 3)"
    by (rule minimalLengthBytes_length)
  have low: "fb AND 3 = word_of_nat (length (minimalLengthBytes n0))"
    unfolding fb_def
    using format_byte_low_bits [of "int (length (minimalLengthBytes n0))"
        "formatCode (headerType item)"]
    by (simp add: len)
  have le3: "length (minimalLengthBytes n0) \<le> 3" by (simp add: len)
  note rd = read_header [OF le3 low, of payload, folded bytes]
  have "(case item of ListNode vs vars \<Rightarrow> int (length vs)
         | _ \<Rightarrow> int (length payload)) = n0"
    using pl assms(2) by (cases item) simp_all
  moreover have "n = (case item of ListNode vs vars \<Rightarrow> int (length vs)
         | _ \<Rightarrow> int (length (payloadOf bs)))"
    unfolding n_def bs_def using assms(2) by (cases item) simp_all
  ultimately have n: "n = n0" unfolding rd(3) by simp
  have val: "bigEndianValue (minimalLengthBytes n0) = n0"
    using bounds by (rule minimalLengthBytes_value)
  have lead: "n0 \<noteq> 0 \<longrightarrow> hd (minimalLengthBytes n0) \<noteq> 0"
    using bounds minimalLengthBytes_no_leading_zero [of n0] by auto
  have zero: "n0 = 0 \<longrightarrow> minimalLengthBytes n0 = [0]"
    by (simp add: minimalLengthBytes_def)
  have whole: "bs = hd bs # lengthField bs @ payloadOf bs"
    unfolding rd by (simp add: bytes)
  have "\<forall>vs vars. item = ListNode vs vars \<longrightarrow> payload = concat (map (ToBytes lib) vs)"
    using pl by auto
  then have list:
    "\<forall>vs vars. item = ListNode vs vars \<longrightarrow> payloadOf bs = concat (map (ToBytes lib) vs)"
    unfolding rd(3) .
  have "(\<forall>vs vars. item \<noteq> ListNode vs vars)
          \<longrightarrow> int (length payload) = Size item * elementWidth item"
    using pl by (cases item) auto
  then have other: "(\<forall>vs vars. item \<noteq> ListNode vs vars)
          \<longrightarrow> int (length (payloadOf bs)) = Size item * elementWidth item"
    unfolding rd(3) .
  show ?thesis
    unfolding n using bounds whole rd(1,2) len val lead zero list other by simp
qed

theorem ToBytes_length_field_witness:
  "constructed (IntNode 2 [1, 2] []) \<and> IntNode 2 [1, 2] [] \<noteq> emptyItemNode
   \<and> Variables (IntNode 2 [1, 2] []) = []
   \<and> ToBytes nolib (IntNode 2 [1, 2] []) = [0x69, 4, 0, 1, 0, 2]
   \<and> payloadOf (ToBytes nolib (IntNode 2 [1, 2] [])) = [0, 1, 0, 2]
   \<and> countedLength nolib (IntNode 2 [1, 2] []) = 4
   \<and> lengthByteCount (ToBytes nolib (IntNode 2 [1, 2] [])) = 1
   \<and> bigEndianValue (lengthField (ToBytes nolib (IntNode 2 [1, 2] []))) = 4"
proof -
  have h1: "constructed (IntNode 2 [1, 2] [])" by code_simp
  have h2: "IntNode 2 [1, 2] [] \<noteq> emptyItemNode" by simp
  have h3: "Variables (IntNode 2 [1, 2] []) = []" by code_simp
  have bytes: "ToBytes nolib (IntNode 2 [1, 2] []) = [0x69, 4, 0, 1, 0, 2]" by code_simp
  have pl: "payloadOf (ToBytes nolib (IntNode 2 [1, 2] [])) = [0, 1, 0, 2]" by code_simp
  have n: "countedLength nolib (IntNode 2 [1, 2] []) = 4" by code_simp
  show ?thesis
    using h1 h2 h3 bytes pl n ToBytes_length_field [OF h1 h2 h3, where lib = nolib] by simp
qed

text \<open>
  The list \<open><L <A "text">>\<close>: its payload, the encoding of the child, has six bytes; the
  length byte is 1, the number of children.
\<close>

theorem list_length_field_counts_children:
  "NewASCIINode ''text'' = Inr (ASCIINode ''text'' (asciiNodeVariable [] 0 0) True)
   \<and> NewListNode [GoItem (ASCIINode ''text'' (asciiNodeVariable [] 0 0) True)]
       = Inr (ListNode [ASCIINode ''text'' (asciiNodeVariable [] 0 0) True] [])
   \<and> Variables (ListNode [ASCIINode ''text'' (asciiNodeVariable [] 0 0) True] []) = []
   \<and> ToBytes nolib (ListNode [ASCIINode ''text'' (asciiNodeVariable [] 0 0) True] [])
       = [0x01, 0x01, 0x41, 0x04, 0x74, 0x65, 0x78, 0x74]
   \<and> payloadOf (ToBytes nolib (ListNode [ASCIINode ''text'' (asciiNodeVariable [] 0 0) True] []))
       = [0x41, 0x04, 0x74, 0x65, 0x78, 0x74]
   \<and> lengthField (ToBytes nolib (ListNode [ASCIINode ''text'' (asciiNodeVariable [] 0 0) True] []))
       = [0x01]
   \<and> bigEndianValue
        (lengthField (ToBytes nolib (ListNode [ASCIINode ''text'' (asciiNodeVariable [] 0 0) True] [])))
       \<noteq> int (length (payloadOf
            (ToBytes nolib (ListNode [ASCIINode ''text'' (asciiNodeVariable [] 0 0) True] []))))"
  by code_simp

subsection \<open>\<open>ToBytes\<close> of a data message\<close>

lemma DataMessage_ToBytes_cases:
  assumes "DataMessage_checkRep lib m = None" "dataItem m = Some node"
  shows "DataMessage_ToBytes lib m =
     Inr (if waitBit m = 2 \<or> Variables node \<noteq> [] \<or> sessionID m = - 1 then []
          else [ucast (drop_bit 24 (word_of_int (int (length (ToBytes lib node)) + 10) :: 32 word)),
                ucast (drop_bit 16 (word_of_int (int (length (ToBytes lib node)) + 10) :: 32 word)),
                ucast (drop_bit 8 (word_of_int (int (length (ToBytes lib node)) + 10) :: 32 word)),
                ucast (word_of_int (int (length (ToBytes lib node)) + 10) :: 32 word),
                byte_shr (sessionID m) 8, byte_shr (sessionID m) 0,
                byte_shr (stream m + (if waitBit m = 1 then 128 else 0)) 0,
                byte_shr (func m) 0, 0, 0]
               @ systemBytes m @ ToBytes lib node)"
  using assms
  by (auto simp: DataMessage_checkRep_def DataMessage_ToBytes_def WaitBit_def
      DataMessage_Variables_def Let_def split: if_splits)

lemma DataMessage_ToBytes_nil:
  assumes "DataMessage_checkRep lib m = None" "dataItem m = None"
  shows "DataMessage_ToBytes lib m = (if waitBit m = 2 then Inr [] else Inl nilDereference)"
  using assms
  by (auto simp: DataMessage_checkRep_def DataMessage_ToBytes_def WaitBit_def
      DataMessage_Variables_def Let_def split: if_splits)

text \<open>The four bytes of a 32-bit word, most significant first, denote the word.\<close>

lemma four_bytes_value:
  fixes x :: int
  assumes "0 \<le> x" "x < 2 ^ 32"
  shows "((x div 2 ^ 24 mod 256 * 256 + x div 2 ^ 16 mod 256) * 256 + x div 2 ^ 8 mod 256) * 256
           + x mod 256 = x"
proof -
  define a where "a = x div 256"
  define b where "b = a div 256"
  define c where "c = b div 256"
  have x: "a * 256 + x mod 256 = x" by (simp add: a_def)
  have a: "b * 256 + a mod 256 = a" by (simp add: b_def)
  have b: "c * 256 + b mod 256 = b" by (simp add: c_def)
  have d8: "x div 2 ^ 8 = a" by (simp add: a_def)
  have d16: "x div 2 ^ 16 = b" by (simp add: a_def b_def zdiv_zmult2_eq)
  have d24: "x div 2 ^ 24 = c" by (simp add: a_def b_def c_def zdiv_zmult2_eq)
  have "0 \<le> c" using assms(1) by (simp add: a_def b_def c_def pos_imp_zdiv_nonneg_iff)
  moreover have "x div 16777216 \<le> 4294967295 div 16777216"
    using assms(2) by (intro zdiv_mono1) simp_all
  then have "c < 256" using d24 by simp
  ultimately have cm: "c mod 256 = c" by simp
  have "((c mod 256 * 256 + b mod 256) * 256 + a mod 256) * 256 + x mod 256 = x"
    unfolding cm by (simp only: b a x)
  then show ?thesis unfolding d8 d16 d24 .
qed

lemma uint_byte_of_word:
  "uint (ucast (drop_bit k (w :: 32 word)) :: byte) = uint w div 2 ^ k mod 256"
proof -
  have "take_bit 32 (uint w) = uint w"
    using uint_lt2p [of w] by (intro take_bit_int_eq_self) simp_all
  then have "uint (drop_bit k w) = drop_bit k (uint w)"
    using unsigned_drop_bit_eq [of k w, where ?'a = int] by simp
  moreover have "uint (ucast (drop_bit k w) :: byte) = take_bit 8 (uint (drop_bit k w))"
    using unsigned_ucast_eq [of "drop_bit k w", where ?'a = int and ?'c = 8] by simp
  ultimately show ?thesis by (simp only: take_bit_eq_mod drop_bit_eq_div) simp
qed

lemma word32_bytes_value:
  "bigEndianValue [ucast (drop_bit 24 w), ucast (drop_bit 16 w), ucast (drop_bit 8 w),
                   ucast (w :: 32 word)] = uint w"
proof -
  have b0: "uint (ucast w :: byte) = uint w mod 256"
    using uint_byte_of_word [of 0 w] by simp
  have lt: "uint w < 2 ^ 32" using uint_lt2p [of w] by simp
  have "bigEndianValue [ucast (drop_bit 24 w), ucast (drop_bit 16 w), ucast (drop_bit 8 w),
                   ucast w]
      = ((uint w div 2 ^ 24 mod 256 * 256 + uint w div 2 ^ 16 mod 256) * 256
          + uint w div 2 ^ 8 mod 256) * 256 + uint w mod 256"
    by (simp only: bigEndianValue_def foldl.simps uint_byte_of_word b0) simp
  then show ?thesis by (simp only: four_bytes_value [OF uint_ge_0 lt])
qed

lemma byte_shr_value:
  assumes "0 \<le> x" "x < 256"
  shows "uint (byte_shr x 0) = x"
  using assms by (simp add: byte_shr_def uint_byte_of_int)

lemma two_bytes_value:
  assumes "0 \<le> x" "x < 65536"
  shows "bigEndianValue [byte_shr x 8, byte_shr x 0] = x"
proof -
  have "0 \<le> x div 256" using assms(1) by (simp add: pos_imp_zdiv_nonneg_iff)
  moreover have "x div 256 \<le> 65535 div 256" using assms(2) by (intro zdiv_mono1) simp_all
  then have "x div 256 < 256" by simp
  ultimately have m: "x div 256 mod 256 = x div 256" by simp
  have "bigEndianValue [byte_shr x 8, byte_shr x 0] = x div 256 mod 256 * 256 + x mod 256"
    by (simp add: bigEndianValue_def byte_shr_def uint_byte_of_int drop_bit_eq_div)
  then show ?thesis unfolding m by simp
qed

text \<open>
  Claim C3, for a message whose data item is a node.  Let \<open>m\<close> have passed \<open>checkRep\<close>, as
  every message of a running program has.  If its data item is a node, \<open>ToBytes\<close> does not
  panic; its result is empty exactly when the wait bit is optional, or the item has a
  variable, or the session id is -1; otherwise it is the frame: four bytes that denote 10
  plus the number of item bytes (modulo \<open>2^32\<close>), two bytes that denote the session id, the
  byte of the stream with the bit \<open>0x80\<close> for a true wait bit, the byte of the function,
  two zero bytes, the four system bytes, then the bytes of the item.  If the data item is
  \<open>nil\<close>, \<open>ToBytes\<close> returns the empty sequence when the wait bit is optional and panics
  otherwise.  \<open>ToBytes\<close> of an item has no operation that can panic, and it is empty when
  the item has a variable.
\<close>

theorem ToBytes_never_panics:
  "(DataMessage_checkRep lib m = None \<longrightarrow> dataItem m = Some node \<longrightarrow>
      (\<exists>bs. DataMessage_ToBytes lib m = Inr bs
         \<and> (bs = [] \<longleftrightarrow> waitBit m = 2 \<or> Variables node \<noteq> [] \<or> sessionID m = - 1)
         \<and> (bs \<noteq> [] \<longrightarrow>
              length bs = 14 + length (ToBytes lib node)
              \<and> bigEndianValue (take 4 bs) = (10 + int (length (ToBytes lib node))) mod 2 ^ 32
              \<and> bigEndianValue (take 2 (drop 4 bs)) = sessionID m
              \<and> uint (bs ! 6) = stream m + (if waitBit m = 1 then 128 else 0)
              \<and> uint (bs ! 7) = func m
              \<and> bs ! 8 = 0 \<and> bs ! 9 = 0
              \<and> take 4 (drop 10 bs) = systemBytes m
              \<and> drop 14 bs = ToBytes lib node)))
   \<and> (DataMessage_checkRep lib m = None \<longrightarrow> dataItem m = None \<longrightarrow>
        DataMessage_ToBytes lib m = (if waitBit m = 2 then Inr [] else Inl nilDereference))
   \<and> (Variables item \<noteq> [] \<longrightarrow> ToBytes lib item = [])"
proof (intro conjI impI)
  assume ok: "DataMessage_checkRep lib m = None" and node: "dataItem m = Some node"
  from ok have len: "length (systemBytes m) = 4"
    and sid: "- 1 \<le> sessionID m" "sessionID m < 65536"
    and strm: "0 \<le> stream m" "stream m < 128"
    and fn: "0 \<le> func m" "func m < 256"
    by (auto simp: DataMessage_checkRep_def split: if_splits)
  define w :: "32 word" where "w = word_of_int (int (length (ToBytes lib node)) + 10)"
  define h2 where "h2 = stream m + (if waitBit m = 1 then 128 else 0)"
  define frame where "frame = [ucast (drop_bit 24 w), ucast (drop_bit 16 w),
      ucast (drop_bit 8 w), ucast w, byte_shr (sessionID m) 8, byte_shr (sessionID m) 0,
      byte_shr h2 0, byte_shr (func m) 0, 0, 0] @ systemBytes m @ ToBytes lib node"
  have res: "DataMessage_ToBytes lib m =
      Inr (if waitBit m = 2 \<or> Variables node \<noteq> [] \<or> sessionID m = - 1 then [] else frame)"
    unfolding DataMessage_ToBytes_cases [OF ok node] frame_def w_def h2_def by simp
  have ne: "frame \<noteq> []" by (simp add: frame_def)
  have f_len: "length frame = 14 + length (ToBytes lib node)" using len by (simp add: frame_def)
  have "uint w = (10 + int (length (ToBytes lib node))) mod 2 ^ 32"
    unfolding w_def uint_word_of_int by (simp add: add.commute)
  then have f_msg:
    "bigEndianValue (take 4 frame) = (10 + int (length (ToBytes lib node))) mod 2 ^ 32"
    using word32_bytes_value [of w] by (simp add: frame_def)
  have f_sid: "sessionID m \<noteq> - 1 \<Longrightarrow> bigEndianValue (take 2 (drop 4 frame)) = sessionID m"
    using two_bytes_value [of "sessionID m"] sid by (simp add: frame_def)
  have h2: "0 \<le> h2" "h2 < 256" using strm by (simp_all add: h2_def)
  have f_6: "uint (frame ! 6) = h2" using byte_shr_value [OF h2] by (simp add: frame_def)
  have f_7: "uint (frame ! 7) = func m" using byte_shr_value [OF fn] by (simp add: frame_def)
  have f_89: "frame ! 8 = 0" "frame ! 9 = 0" by (simp_all add: frame_def)
  have f_sys: "take 4 (drop 10 frame) = systemBytes m" using len by (simp add: frame_def)
  have f_item: "drop 14 frame = ToBytes lib node" using len by (simp add: frame_def)
  show "\<exists>bs. DataMessage_ToBytes lib m = Inr bs
         \<and> (bs = [] \<longleftrightarrow> waitBit m = 2 \<or> Variables node \<noteq> [] \<or> sessionID m = - 1)
         \<and> (bs \<noteq> [] \<longrightarrow>
              length bs = 14 + length (ToBytes lib node)
              \<and> bigEndianValue (take 4 bs) = (10 + int (length (ToBytes lib node))) mod 2 ^ 32
              \<and> bigEndianValue (take 2 (drop 4 bs)) = sessionID m
              \<and> uint (bs ! 6) = stream m + (if waitBit m = 1 then 128 else 0)
              \<and> uint (bs ! 7) = func m
              \<and> bs ! 8 = 0 \<and> bs ! 9 = 0
              \<and> take 4 (drop 10 bs) = systemBytes m
              \<and> drop 14 bs = ToBytes lib node)"
  proof (cases "waitBit m = 2 \<or> Variables node \<noteq> [] \<or> sessionID m = - 1")
    case True
    then show ?thesis unfolding res by simp
  next
    case False
    then have "DataMessage_ToBytes lib m = Inr frame" unfolding res by simp
    moreover have "sessionID m \<noteq> - 1" using False by simp
    ultimately show ?thesis
      using False ne f_len f_msg f_sid f_6 f_7 f_89 f_sys f_item unfolding h2_def by simp
  qed
next
  assume "DataMessage_checkRep lib m = None" "dataItem m = None"
  then show "DataMessage_ToBytes lib m = (if waitBit m = 2 then Inr [] else Inl nilDereference)"
    by (rule DataMessage_ToBytes_nil)
next
  assume "Variables item \<noteq> []"
  then show "ToBytes lib item = []" by (rule ToBytes_variables_empty)
qed

theorem ToBytes_never_panics_witness:
  "DataMessage_checkRep nolib
     \<lparr>name = [], stream = 1, func = 1, waitBit = 1, direction = ''H<->E'',
      dataItem = Some (ASCIINode ''text'' (asciiNodeVariable [] 0 0) True),
      sessionID = 1, systemBytes = [0, 0, 0, 1]\<rparr> = None
   \<and> DataMessage_ToBytes nolib
     \<lparr>name = [], stream = 1, func = 1, waitBit = 1, direction = ''H<->E'',
      dataItem = Some (ASCIINode ''text'' (asciiNodeVariable [] 0 0) True),
      sessionID = 1, systemBytes = [0, 0, 0, 1]\<rparr>
     = Inr [0, 0, 0, 0x10, 0, 1, 0x81, 1, 0, 0, 0, 0, 0, 1, 0x41, 4, 0x74, 0x65, 0x78, 0x74]
   \<and> bigEndianValue (take 4
        [0, 0, 0, 0x10, 0, 1, 0x81, 1, 0, 0, 0, 0, 0, 1, 0x41, 4, 0x74, 0x65, 0x78, 0x74])
       = (10 + int (length (ToBytes nolib (ASCIINode ''text'' (asciiNodeVariable [] 0 0) True))))
           mod 2 ^ 32
   \<and> Variables (BooleanNode [True, False] [(''var1'', 1)]) \<noteq> []
   \<and> ToBytes nolib (BooleanNode [True, False] [(''var1'', 1)]) = []"
proof -
  let ?node = "ASCIINode ''text'' (asciiNodeVariable [] 0 0) True"
  let ?m = "\<lparr>name = [], stream = 1, func = 1, waitBit = 1, direction = ''H<->E'',
      dataItem = Some ?node, sessionID = 1, systemBytes = [0, 0, 0, 1]\<rparr>"
  let ?item = "BooleanNode [True, False] [(''var1'', 1)]"
  have h1: "DataMessage_checkRep nolib ?m = None" by code_simp
  have h2: "Variables ?item \<noteq> []" by code_simp
  have h3: "dataItem ?m = Some ?node" by simp
  have bytes: "DataMessage_ToBytes nolib ?m
      = Inr [0, 0, 0, 0x10, 0, 1, 0x81, 1, 0, 0, 0, 0, 0, 1, 0x41, 4, 0x74, 0x65, 0x78, 0x74]"
    by code_simp
  have "[0, 0, 0, 0x10, 0, 1, 0x81, 1, 0, 0, 0, 0, 0, 1, 0x41, 4, 0x74, 0x65, 0x78, 0x74 :: byte]
      \<noteq> []" by simp
  then show ?thesis
    using h1 h2 h3 bytes ToBytes_never_panics [of nolib ?m ?node ?item] by auto
qed

text \<open>
  A message that \<open>NewDataMessage\<close> returns for the \<open>nil\<close> item, with the wait bit false:
  \<open>ToBytes\<close> panics.
\<close>

theorem ToBytes_panics_on_nil_item:
  "NewDataMessage nolib [] 1 1 0 ''H->E'' None
     = Inr \<lparr>name = [], stream = 1, func = 1, waitBit = 0, direction = ''H->E'',
            dataItem = None, sessionID = - 1, systemBytes = [0, 0, 0, 0]\<rparr>
   \<and> DataMessage_ToBytes nolib
        \<lparr>name = [], stream = 1, func = 1, waitBit = 0, direction = ''H->E'',
         dataItem = None, sessionID = - 1, systemBytes = [0, 0, 0, 0]\<rparr>
       = Inl (Panic ''invalid memory address or nil pointer dereference'')"
  by code_simp

subsection \<open>The wait bit of a reply\<close>

lemma checked_Inr: "checked lib m = Inr m' \<Longrightarrow> m' = m \<and> DataMessage_checkRep lib m = None"
  by (auto simp: checked_def split: option.splits)

lemma reachable_checkRep: "reachable lib m \<Longrightarrow> DataMessage_checkRep lib m = None"
proof (induction rule: reachable.induct)
  case (byNewDataMessage nm strm fn wbit dir item m)
  then show ?case by (auto simp: NewDataMessage_def dest: checked_Inr)
next
  case (byNewHSMSDataMessage nm strm fn wbit dir item sid sbytes m)
  then show ?case
    by (auto simp: NewHSMSDataMessage_def dest: checked_Inr split: if_splits option.splits)
next
  case (bySetWaitBit m wb m')
  then show ?case by (auto simp: SetWaitBit_def dest: checked_Inr split: if_splits)
next
  case (bySetSessionIDAndSystemBytes m sid sbytes m')
  then show ?case by (auto simp: SetSessionIDAndSystemBytes_def dest: checked_Inr)
next
  case (byFillVariables m fuel vals m')
  then show ?case
    by (auto simp: DataMessage_FillVariables_def dest: checked_Inr
        split: option.splits sum.splits)
qed

lemma checkRep_wait_bit:
  "DataMessage_checkRep lib m = None
   \<Longrightarrow> (waitBit m = 1 \<longrightarrow> odd (func m)) \<and> (even (func m) \<longrightarrow> waitBit m = 0 \<or> waitBit m = 2)"
  by (auto simp: DataMessage_checkRep_def split: if_splits)

text \<open>
  C9.  Every message that a program can hold (returned by \<open>NewDataMessage\<close> or
  \<open>NewHSMSDataMessage\<close>, or by \<open>SetWaitBit\<close>, \<open>SetSessionIDAndSystemBytes\<close> or
  \<open>FillVariables\<close> on such a message; a call that panics returns none) has an odd function
  code when its wait bit is true, and a wait bit false or optional when its function code
  is even.
\<close>

theorem wait_bit_invariant:
  assumes "reachable lib m"
  shows "(waitBit m = 1 \<longrightarrow> odd (func m)) \<and> (even (func m) \<longrightarrow> waitBit m = 0 \<or> waitBit m = 2)"
  using assms by (intro checkRep_wait_bit reachable_checkRep)

theorem wait_bit_invariant_witness:
  "reachable nolib
     \<lparr>name = [], stream = 1, func = 1, waitBit = 1, direction = ''H->E'',
      dataItem = Some emptyItemNode, sessionID = - 1, systemBytes = [0, 0, 0, 0]\<rparr>
   \<and> odd (func \<lparr>name = [], stream = 1, func = 1, waitBit = 1, direction = ''H->E'',
      dataItem = Some emptyItemNode, sessionID = - 1, systemBytes = [0, 0, 0, 0]\<rparr>)"
proof -
  let ?m = "\<lparr>name = [], stream = 1, func = 1, waitBit = 1, direction = ''H->E'',
      dataItem = Some emptyItemNode, sessionID = - 1, systemBytes = [0, 0, 0, 0]\<rparr>"
  have "NewDataMessage nolib [] 1 1 2 ''H->E'' (Some emptyItemNode) = Inr (?m\<lparr>waitBit := 2\<rparr>)"
    by code_simp
  then have r0: "reachable nolib (?m\<lparr>waitBit := 2\<rparr>)" by (rule byNewDataMessage)
  have "SetWaitBit nolib (?m\<lparr>waitBit := 2\<rparr>) True = Inr ?m" by code_simp
  with r0 have r: "reachable nolib ?m" by (rule bySetWaitBit)
  show ?thesis using r wait_bit_invariant [OF r] by simp
qed

subsection \<open>The decoder\<close>

lemma numeric_preserves:
  "parseFloat lib p bs len = Inr (r, p')
   \<Longrightarrow> input p' = input p \<and> pos p \<le> pos p' \<and> msg p' = msg p"
  "parseInt p bs len = Inr (r, p') \<Longrightarrow> input p' = input p \<and> pos p \<le> pos p' \<and> msg p' = msg p"
  "parseUint p bs len = Inr (r, p') \<Longrightarrow> input p' = input p \<and> pos p \<le> pos p' \<and> msg p' = msg p"
  by (auto simp: parseFloat_def parseInt_def parseUint_def split: option.splits sum.splits)

lemma parseScalar_preserves:
  "parseScalar lib p fmt len = Inr (r, p')
   \<Longrightarrow> input p' = input p \<and> pos p \<le> pos p' \<and> msg p' = msg p"
  unfolding parseScalar_def
  by (auto split: if_splits sum.splits dest: numeric_preserves)

text \<open>The decoder only moves forward, and leaves the input and the message alone.\<close>

lemma parse_preserves:
  "parseMessageText k lib p = Some (Inr (r, p'))
   \<Longrightarrow> input p' = input p \<and> pos p \<le> pos p' \<and> msg p' = msg p"
  "parseChildren k lib n vals p = Some (Inr (r, p'))
   \<Longrightarrow> input p' = input p \<and> pos p \<le> pos p' \<and> msg p' = msg p"
proof (induction k lib p and k lib n vals p arbitrary: r p' and r p'
    rule: parseMessageText_parseChildren.induct)
  case (1 lib p)
  then show ?case by simp
next
  case (2 k lib p)
  show ?case
  proof (cases "msgLength p = 10 \<or> \<not> pos p < length (elems (input p))
      \<or> unat (elems (input p) ! pos p AND 3) = 0")
    case True
    then show ?thesis using "2.prems" by (auto split: if_splits)
  next
    case False
    then have c1: "msgLength p \<noteq> 10" and c2: "\<not> \<not> pos p < length (elems (input p))"
      and c3: "unat (elems (input p) ! pos p AND 3) \<noteq> 0" by auto
    define lbc where "lbc = unat (elems (input p) ! pos p AND 3)"
    define p1 where "p1 = p\<lparr>pos := pos p + 1\<rparr>"
    from False "2.prems" obtain lengthBytes
      where sl: "slice (input p1) (pos p1) (pos p1 + lbc) = Inr lengthBytes"
      by (auto simp: Let_def lbc_def p1_def split: sum.splits)
    define len where "len = decodeLength lbc 0 lengthBytes"
    define p2 where "p2 = p1\<lparr>pos := pos p1 + lbc\<rparr>"
    show ?thesis
    proof (cases "drop_bit 2 (elems (input p) ! pos p) = 0")
      case True
      then have "parseChildren k lib (nat len) [] p2 = Some (Inr (r, p'))"
        using False "2.prems" sl by (simp add: Let_def lbc_def p1_def len_def p2_def)
      from "2.IH" [OF c1 c2 refl refl c3 refl sl [unfolded p1_def lbc_def] refl refl True
          this [unfolded p2_def len_def p1_def lbc_def]]
      show ?thesis by simp
    next
      case nz: False
      then have "parseScalar lib p2 (drop_bit 2 (elems (input p) ! pos p)) len = Inr (r, p')"
        using False "2.prems" sl by (simp add: Let_def lbc_def p1_def len_def p2_def)
      from parseScalar_preserves [OF this] show ?thesis by (simp add: p2_def p1_def)
    qed
  qed
next
  case (3 k lib "values" p)
  then show ?case by (auto split: sum.splits)
next
  case (4 k lib n "values" p)
  from "4.prems" obtain item ok p1
    where first: "parseMessageText k lib p = Some (Inr ((item, ok), p1))"
    by (auto split: option.splits sum.splits)
  note a = "4.IH"(1) [OF first]
  show ?case
  proof (cases ok)
    case False
    then have "p' = p1" using "4.prems" first by simp
    then show ?thesis using a by simp
  next
    case True
    then have "parseChildren k lib n (values @ [GoItem item]) p1 = Some (Inr (r, p'))"
      using "4.prems" first by simp
    from "4.IH"(2) [OF first refl refl refl _ this] True a show ?thesis by simp
  qed
qed

text \<open>More fuel than bytes left is enough.\<close>

lemma fuel_enough:
  "length (elems (input p)) - pos p < k \<Longrightarrow> parseMessageText k lib p \<noteq> None"
  "length (elems (input p)) - pos p < k \<Longrightarrow> parseChildren k lib n vals p \<noteq> None"
proof (induction k lib p and k lib n vals p rule: parseMessageText_parseChildren.induct)
  case (1 lib p)
  then show ?case by simp
next
  case (2 k lib p)
  show ?case
  proof (cases "msgLength p = 10 \<or> \<not> pos p < length (elems (input p))
      \<or> unat (elems (input p) ! pos p AND 3) = 0")
    case True
    then show ?thesis by (auto split: if_splits)
  next
    case False
    then have c1: "msgLength p \<noteq> 10" and c2: "\<not> \<not> pos p < length (elems (input p))"
      and c3: "unat (elems (input p) ! pos p AND 3) \<noteq> 0" by auto
    define lbc where "lbc = unat (elems (input p) ! pos p AND 3)"
    define p1 where "p1 = p\<lparr>pos := pos p + 1\<rparr>"
    show ?thesis
    proof (cases "slice (input p1) (pos p1) (pos p1 + lbc)")
      case (Inl e)
      then show ?thesis using False by (simp add: Let_def lbc_def p1_def)
    next
      case (Inr lengthBytes)
      define len where "len = decodeLength lbc 0 lengthBytes"
      define p2 where "p2 = p1\<lparr>pos := pos p1 + lbc\<rparr>"
      show ?thesis
      proof (cases "drop_bit 2 (elems (input p) ! pos p) = 0")
        case True
        have "length (elems (input p2)) - pos p2 < k" using "2.prems" c2
          by (simp add: p2_def p1_def)
        from "2.IH" [OF c1 c2 refl refl c3 refl Inr [unfolded p1_def lbc_def] refl refl True
          this [unfolded p2_def p1_def lbc_def]]
        show ?thesis using False Inr True by (simp add: Let_def lbc_def p1_def)
      next
        case nz: False
        then show ?thesis using False Inr by (simp add: Let_def lbc_def p1_def)
      qed
    qed
  qed
next
  case (3 k lib "values" p)
  then show ?case by (auto split: sum.splits)
next
  case (4 k lib n "values" p)
  from "4.IH"(1) [OF "4.prems"] obtain x where x: "parseMessageText k lib p = Some x" by auto
  show ?case
  proof (cases x)
    case (Inl e)
    then show ?thesis using x by simp
  next
    case (Inr y)
    obtain item ok p1 where y: "y = ((item, ok), p1)" by (metis surj_pair)
    have first: "parseMessageText k lib p = Some (Inr ((item, ok), p1))" using x Inr y by simp
    note a = parse_preserves(1) [OF first]
    show ?thesis
    proof (cases ok)
      case False
      then show ?thesis using first by simp
    next
      case True
      have "length (elems (input p1)) - pos p1 < k" using a "4.prems" by auto
      from "4.IH"(2) [OF first refl refl refl _ this] True first show ?thesis by simp
    qed
  qed
qed

lemma wait_bit_set:
  assumes "(b :: 8 word) AND 0x80 \<noteq> 0"
  shows "uint (drop_bit 7 b) = 1"
proof -
  have "bit b 7" using assms and_exp_eq_0_iff_not_bit [of b 7] by simp
  then have nz: "drop_bit 7 b \<noteq> 0"
    using drop_bit_eq_zero_iff_not_bit_last [of b] by simp
  have "unat b < 256" using unsigned_less [of b] by simp
  moreover have "unat (drop_bit 7 b) = unat b div 2 ^ 7"
    unfolding unat_drop_bit_eq by (simp add: drop_bit_eq_div)
  ultimately have "unat (drop_bit 7 b) < 2" by simp
  moreover have "unat (drop_bit 7 b) \<noteq> 0" using nz by (simp add: unat_eq_0)
  ultimately have "unat (drop_bit 7 b) = 1" by linarith
  then show ?thesis by (metis of_nat_1 uint_nat)
qed

lemma function_even: "(b :: 8 word) AND 1 = 0 \<Longrightarrow> uint b mod 2 = 0"
  by (metis and_one_eq uint_and unsigned_0 unsigned_1)

lemma NewHSMSDataMessage_wait_bit_reply:
  assumes "fn mod 2 = 0"
  shows "\<exists>e. NewHSMSDataMessage lib nm strm fn 1 dir item sid sb = Inl e"
  using assms
  by (auto simp: NewHSMSDataMessage_def checked_def DataMessage_checkRep_def
      split: option.splits)

text \<open>
  C10.  Let \<open>bytes\<close> be a frame of at least 14 bytes whose length prefix is right, with
  PType 0 and SType 0, whose byte at offset 6 has the bit \<open>0x80\<close> set and whose byte at
  offset 7 is even, given to \<open>Parse\<close> as a slice with any bytes \<open>behind\<close> it in its backing
  array.  Then \<open>Parse\<close> returns (it does not run out of fuel), and it returns no message
  and \<open>ok = false\<close>: either the item fails to decode, or \<open>NewHSMSDataMessage\<close> panics and
  \<open>recover\<close> turns the panic into a failure.
\<close>

theorem Parse_rejects_wait_bit_on_reply:
  assumes len: "14 \<le> length bytes"
    and prefix: "uint (bigEndian (take 4 bytes) :: 32 word) = int (length bytes) - 4"
    and ptype: "bytes ! 8 = 0" and stype: "bytes ! 9 = 0"
    and wait: "bytes ! 6 AND 0x80 \<noteq> 0"
    and reply: "bytes ! 7 AND 1 = 0"
  shows "Parse lib \<lparr>elems = bytes, spare = behind\<rparr> = Some (None, False)"
proof -
  define s where "s = \<lparr>elems = bytes, spare = behind\<rparr>"
  define p1 where
    "p1 = \<lparr>input = s, pos = 4, msgLength = int (length bytes) - 4, msg = None\<rparr>"
  define p2 where "p2 = p1\<lparr>pos := 14\<rparr>"
  define hb where "hb = take 10 (drop 4 bytes)"
  have pml: "parseMessageLength \<lparr>input = s, pos = 0, msgLength = 0, msg = None\<rparr>
      = (True, p1)"
    using len prefix by (simp add: parseMessageLength_def Let_def p1_def s_def)
  have sl: "slice (input p1) (pos p1) (pos p1 + 10) = Inr hb"
    using len by (simp add: slice_def p1_def hb_def s_def)
  have hb: "hb ! 4 = 0" "hb ! 5 = 0" "hb ! 2 = bytes ! 6" "hb ! 3 = bytes ! 7"
    using len ptype stype by (simp_all add: hb_def)
  have p2_eq: "p2 = \<lparr>input = s, pos = 14, msgLength = int (length bytes) - 4, msg = None\<rparr>"
    by (simp add: p2_def p1_def)
  have fuel: "parseMessageText (Suc (length bytes)) lib p2 \<noteq> None"
    by (rule fuel_enough) (simp add: p2_def p1_def s_def)
  have pm: "\<exists>r. parseMessage (Suc (length bytes)) lib p1 = Some r
          \<and> (case r of Inl e \<Rightarrow> True | Inr (ok, p) \<Rightarrow> \<not> ok \<and> msg p = None)"
  proof (cases "parseMessageText (Suc (length bytes)) lib p2")
    case None
    then show ?thesis using fuel by simp
  next
    case (Some x)
    show ?thesis
    proof (cases x)
      case (Inl e)
      then show ?thesis using Some [unfolded p2_eq] sl hb
        by (simp add: parseMessage_def Let_def p1_def del: parseMessageText.simps)
    next
      case (Inr y)
      obtain item ok p3 where y: "y = ((item, ok), p3)" by (metis surj_pair)
      have first: "parseMessageText (Suc (length bytes)) lib p2 = Some (Inr ((item, ok), p3))"
        using Some Inr y by simp
      have keep: "msg p3 = None"
        using parse_preserves(1) [OF first] by (simp add: p2_def p1_def)
      obtain e where e: "NewHSMSDataMessage lib [] (uint (bytes ! 6 AND 127)) (uint (bytes ! 7))
            1 ''H<->E'' (Some item) (uint (bigEndian (take 2 hb) :: 16 word)) (take 4 (drop 6 hb))
          = Inl e"
        using NewHSMSDataMessage_wait_bit_reply [OF function_even [OF reply]] by blast
      show ?thesis using first [unfolded p2_eq] sl hb keep e wait_bit_set [OF wait]
        by (simp add: parseMessage_def Let_def p1_def del: parseMessageText.simps)
    qed
  qed
  then obtain r where r: "parseMessage (Suc (length bytes)) lib p1 = Some r"
    and rr: "case r of Inl e \<Rightarrow> True | Inr (ok, p) \<Rightarrow> \<not> ok \<and> msg p = None" by blast
  show ?thesis using pml r rr unfolding s_def [symmetric]
    by (auto simp: Parse_def Let_def s_def split: sum.splits prod.splits bool.splits)
qed

theorem Parse_rejects_wait_bit_on_reply_witness:
  "14 \<le> length [0, 0, 0, 12, 0, 0, 0x81, 2, 0, 0, 0, 0, 0, 0, 0x21, 0 :: byte]
   \<and> uint (bigEndian (take 4 [0, 0, 0, 12, 0, 0, 0x81, 2, 0, 0, 0, 0, 0, 0, 0x21, 0]) :: 32 word)
       = int (length [0, 0, 0, 12, 0, 0, 0x81, 2, 0, 0, 0, 0, 0, 0, 0x21, 0 :: byte]) - 4
   \<and> [0, 0, 0, 12, 0, 0, 0x81, 2, 0, 0, 0, 0, 0, 0, 0x21, 0 :: byte] ! 8 = 0
   \<and> [0, 0, 0, 12, 0, 0, 0x81, 2, 0, 0, 0, 0, 0, 0, 0x21, 0 :: byte] ! 9 = 0
   \<and> [0, 0, 0, 12, 0, 0, 0x81, 2, 0, 0, 0, 0, 0, 0, 0x21, 0 :: byte] ! 6 AND 0x80 \<noteq> 0
   \<and> [0, 0, 0, 12, 0, 0, 0x81, 2, 0, 0, 0, 0, 0, 0, 0x21, 0 :: byte] ! 7 AND 1 = 0
   \<and> Parse nolib \<lparr>elems = [0, 0, 0, 12, 0, 0, 0x81, 2, 0, 0, 0, 0, 0, 0, 0x21, 0],
                    spare = [0x21, 1, 7]\<rparr> = Some (None, False)"
proof -
  let ?f = "[0, 0, 0, 12, 0, 0, 0x81, 2, 0, 0, 0, 0, 0, 0, 0x21, 0 :: byte]"
  have h1: "14 \<le> length ?f" by simp
  have h2: "uint (bigEndian (take 4 ?f) :: 32 word) = int (length ?f) - 4" by code_simp
  have h3: "?f ! 8 = 0" by simp
  have h4: "?f ! 9 = 0" by simp
  have h5: "?f ! 6 AND 0x80 \<noteq> 0" by simp
  have h6: "?f ! 7 AND 1 = 0" by simp
  show ?thesis
    using h1 h2 h3 h4 h5 h6 Parse_rejects_wait_bit_on_reply [OF h1 h2 h3 h4 h5 h6, of nolib "[0x21, 1, 7]"]
    by blast
qed

lemma push_bit_byte_beyond: "8 \<le> n \<Longrightarrow> push_bit n (b :: byte) = 0"
  by (rule bit_word_eqI) (auto simp: bit_simps)

text \<open>What the length loop computes: the last length byte, whatever the others are.\<close>

lemma decodeLength_last:
  "i + length bs = lb \<Longrightarrow> decodeLength lb i bs = (if bs = [] then 0 else uint (last bs))"
proof (induction bs arbitrary: i)
  case Nil
  then show ?case by simp
next
  case (Cons b rest)
  show ?case
  proof (cases rest)
    case Nil
    then show ?thesis using Cons.prems by auto
  next
    case (Cons c cs)
    then have "8 \<le> (lb - i - 1) * 8" using Cons.prems by auto
    then have "push_bit ((lb - i - 1) * 8) b = 0" by (rule push_bit_byte_beyond)
    then show ?thesis using Cons.IH [of "Suc i"] Cons.prems Cons by simp
  qed
qed

text \<open>
  C2 fails on the code.  For the two length bytes \<open>01 00\<close> the decoder computes the length
  0, where the bytes denote 256; an ASCII item of 256 characters, as \<open>ToBytes\<close> encodes
  it, is decoded as the empty string, with the 256 payload bytes left unread.
\<close>

theorem decodeLength_two_length_bytes:
  "decodeLength 2 0 [1, 0] = 0 \<and> bigEndianValue [1, 0] = 256
   \<and> decodeLength 3 0 [1, 2, 3] = 3 \<and> bigEndianValue [1, 2, 3] = 66051
   \<and> ToBytes nolib (ASCIINode (replicate 256 (CHR ''a'')) (asciiNodeVariable [] 0 0) True)
       = [0x42, 1, 0] @ replicate 256 0x61
   \<and> parseMessageText 1 nolib
        \<lparr>input = exactSlice ([0x42, 1, 0] @ replicate 256 0x61), pos = 0, msgLength = 269,
         msg = None\<rparr>
       = Some (Inr ((ASCIINode [] (asciiNodeVariable [] 0 0) True, True),
            \<lparr>input = exactSlice ([0x42, 1, 0] @ replicate 256 0x61), pos = 3,
              msgLength = 269, msg = None\<rparr>))"
  by code_simp

theorem decodeLength_two_length_bytes_witness:
  "decodeLength 2 0 [1, 0] = 0 \<and> bigEndianValue [1, 0] = 256"
  using decodeLength_two_length_bytes by blast

text \<open>
  C1 fails on the code, in two ways.  A Binary item with an element does not decode: the
  decoder hands the bytes to \<open>NewBinaryNode\<close> as \<open>uint8\<close> values, for which the factory
  has no case, and the panic becomes \<open>ok = false\<close>.  An item whose length field needs two
  bytes decodes to another item (see C2): \<open>Parse\<close> succeeds with the empty string.
  \<open>ToBytes\<close> allocates its result with the capacity that it fills, so \<open>Parse\<close> gets a slice
  with nothing behind it.
\<close>

theorem Parse_ToBytes_round_trip_fails:
  "NewBinaryNode nolib [GoInt 1] = Inr (BinaryNode [1] [])
   \<and> NewHSMSDataMessage nolib [] 1 1 0 ''H<->E'' (Some (BinaryNode [1] [])) 0 [0, 0, 0, 0]
       = Inr \<lparr>name = [], stream = 1, func = 1, waitBit = 0, direction = ''H<->E'',
              dataItem = Some (BinaryNode [1] []), sessionID = 0, systemBytes = [0, 0, 0, 0]\<rparr>
   \<and> DataMessage_ToBytes nolib
        \<lparr>name = [], stream = 1, func = 1, waitBit = 0, direction = ''H<->E'',
         dataItem = Some (BinaryNode [1] []), sessionID = 0, systemBytes = [0, 0, 0, 0]\<rparr>
       = Inr [0, 0, 0, 13, 0, 0, 1, 1, 0, 0, 0, 0, 0, 0, 0x21, 1, 1]
   \<and> Parse nolib (exactSlice [0, 0, 0, 13, 0, 0, 1, 1, 0, 0, 0, 0, 0, 0, 0x21, 1, 1])
       = Some (None, False)
   \<and> DataMessage_ToBytes nolib
        \<lparr>name = [], stream = 1, func = 1, waitBit = 0, direction = ''H<->E'',
         dataItem = Some (ASCIINode (replicate 256 (CHR ''a'')) (asciiNodeVariable [] 0 0) True),
         sessionID = 0, systemBytes = [0, 0, 0, 0]\<rparr>
       = Inr ([0, 0, 1, 13, 0, 0, 1, 1, 0, 0, 0, 0, 0, 0, 0x42, 1, 0] @ replicate 256 0x61)
   \<and> Parse nolib
        (exactSlice ([0, 0, 1, 13, 0, 0, 1, 1, 0, 0, 0, 0, 0, 0, 0x42, 1, 0] @ replicate 256 0x61))
       = Some (Some (DataMsg
           \<lparr>name = [], stream = 1, func = 1, waitBit = 0, direction = ''H<->E'',
            dataItem = Some (ASCIINode [] (asciiNodeVariable [] 0 0) True),
            sessionID = 0, systemBytes = [0, 0, 0, 0]\<rparr>), True)"
  by code_simp

theorem Parse_ToBytes_round_trip_fails_witness:
  "Parse nolib (exactSlice [0, 0, 0, 13, 0, 0, 1, 1, 0, 0, 0, 0, 0, 0, 0x21, 1, 1])
       = Some (None, False)"
  using Parse_ToBytes_round_trip_fails by blast

text \<open>
  A slice expression reaches behind the input: an ASCII item that announces two bytes at
  the end of a frame of 16 bytes decodes when the backing array has two more bytes, and
  panics when it has none.
\<close>

lemma Parse_reads_spare_capacity:
  "Parse nolib \<lparr>elems = [0, 0, 0, 12, 0, 1, 1, 1, 0, 0, 0, 0, 0, 0, 0x41, 2],
                  spare = [0x61, 0x62]\<rparr>
     = Some (Some (DataMsg
         \<lparr>name = [], stream = 1, func = 1, waitBit = 0, direction = ''H<->E'',
          dataItem = Some (ASCIINode ''ab'' (asciiNodeVariable [] 0 0) True),
          sessionID = 1, systemBytes = [0, 0, 0, 0]\<rparr>), True)
   \<and> Parse nolib (exactSlice [0, 0, 0, 12, 0, 1, 1, 1, 0, 0, 0, 0, 0, 0, 0x41, 2])
       = Some (None, False)"
  by code_simp

subsection \<open>reject.req construction\<close>

lemma stampHeader_ok:
  "4 \<le> length sb \<Longrightarrow>
   stampHeader h0 h1 h2 h3 h5 sb = Inr \<lparr>header = [h0, h1, h2, h3, 0, h5, sb ! 0, sb ! 1, sb ! 2, sb ! 3]\<rparr>"
  by (simp add: stampHeader_def numeral_eq_Suc)

text \<open>
  C5, as the code has it.  \<open>NewHSMSMessageRejectReq\<close> has no check of the reason code:
  given four system bytes, construction succeeds for every reason code, zero included,
  and the header is: session id (big-endian) in bytes 0 and 1, the pType when the reason
  is 2 and the sType otherwise in byte 2, the reason code in byte 3, PType 0 in byte 4,
  SType 7 in byte 5, and the system bytes in bytes 6 to 9.
\<close>

theorem reject_req_any_reason:
  assumes "4 \<le> length sb"
  shows "NewHSMSMessageRejectReq sid pt st sb reason =
           Inr \<lparr>header = [ucast (drop_bit 8 sid), ucast sid, (if reason = 2 then pt else st),
                           reason, 0, 7, sb ! 0, sb ! 1, sb ! 2, sb ! 3]\<rparr>"
  using assms by (simp add: NewHSMSMessageRejectReq_def stampHeader_ok sTypeRejectReq_def)

theorem reject_req_any_reason_witness:
  "4 \<le> length [0xFC, 0xFD, 0xFE, 0xFF :: byte] \<and>
   NewHSMSMessageRejectReq 0x1234 0 9 [0xFC, 0xFD, 0xFE, 0xFF] 3 =
     Inr \<lparr>header = [0x12, 0x34, 9, 3, 0, 7, 0xFC, 0xFD, 0xFE, 0xFF]\<rparr>"
  using reject_req_any_reason [of "[0xFC, 0xFD, 0xFE, 0xFF]" "0x1234" 0 9 3] by simp

text \<open>C5 as stated fails: with reason code 0 the construction succeeds.\<close>

theorem reject_req_reason_zero_succeeds:
  "NewHSMSMessageRejectReq 0 0 0 [0, 0, 0, 0] 0 = Inr \<lparr>header = [0, 0, 0, 0, 0, 7, 0, 0, 0, 0]\<rparr>"
  by (simp add: NewHSMSMessageRejectReq_def stampHeader_ok sTypeRejectReq_def)

subsection \<open>The printed form of an ASCII variable\<close>

text \<open>
  C6, as the code has it.  An ASCII node in variable mode with name \<open>v\<close> and bounds
  \<open>(mn, mx)\<close> prints as \<open><A\<close>, the size decoration, a space, \<open>v\<close> and \<open>>\<close>, where the
  decoration is empty for \<open>(0, -1)\<close>, \<open>[k]\<close> for \<open>mn = mx = k\<close>, \<open>[k..]\<close> for \<open>mx = -1\<close> and
  \<open>mn > 0\<close>, and \<open>[mn..mx]\<close> in every other case; a lower bound of 0 is printed like any
  other, as \<open>[0..k]\<close>.
\<close>

theorem ASCIINode_String_variable:
  "(mn = 0 \<and> mx = - 1 \<longrightarrow>
      ASCIINode_String val (asciiNodeVariable v mn mx) False = ''<A '' @ v @ ''>'') \<and>
   (mn = mx \<longrightarrow>
      ASCIINode_String val (asciiNodeVariable v mn mx) False
        = ''<A['' @ itoa mn @ ''] '' @ v @ ''>'') \<and>
   (mx = - 1 \<and> mn > 0 \<longrightarrow>
      ASCIINode_String val (asciiNodeVariable v mn mx) False
        = ''<A['' @ itoa mn @ ''..] '' @ v @ ''>'') \<and>
   (mx \<noteq> - 1 \<and> mn \<noteq> mx \<longrightarrow>
      ASCIINode_String val (asciiNodeVariable v mn mx) False
        = ''<A['' @ itoa mn @ ''..'' @ itoa mx @ ''] '' @ v @ ''>'')"
  by (simp add: ASCIINode_String_def)

theorem ASCIINode_String_variable_witness:
  "ASCIINode_String [] (asciiNodeVariable ''var'' 0 (- 1)) False = ''<A var>'' \<and>
   ASCIINode_String [] (asciiNodeVariable ''var'' 3 3) False = ''<A[3] var>'' \<and>
   ASCIINode_String [] (asciiNodeVariable ''var'' 2 (- 1)) False = ''<A[2..] var>'' \<and>
   ASCIINode_String [] (asciiNodeVariable ''var'' 2 7) False = ''<A[2..7] var>''"
proof -
  have i2: "itoa 2 = ''2''" and i3: "itoa 3 = ''3''" and i7: "itoa 7 = ''7''"
    by code_simp+
  show ?thesis
    using ASCIINode_String_variable [of 0 "- 1" "[]" "''var''"]
      ASCIINode_String_variable [of 3 3 "[]" "''var''"]
      ASCIINode_String_variable [of 2 "- 1" "[]" "''var''"]
      ASCIINode_String_variable [of 2 7 "[]" "''var''"]
    by (simp add: i2 i3 i7)
qed

text \<open>C6 as stated fails: bounds \<open>(0, 5)\<close> print as \<open>[0..5]\<close>, not as \<open>[..5]\<close>.\<close>

theorem ASCIINode_String_lower_bound_zero:
  "ASCIINode_String [] (asciiNodeVariable ''var'' 0 5) False = ''<A[0..5] var>''"
  by code_simp

subsection \<open>More fuel does not change a result\<close>

lemma fillEllipsis_mono_aux:
  "(\<forall>lib vals vs vars state r. fillEllipsis k lib vals vs vars state = Some r
        \<longrightarrow> fillEllipsis (k + d) lib vals vs vars state = Some r) \<and>
   (\<forall>lib vals vs vars ePos eVal i nodeValues state r.
        fillEllipsis_loop k lib vals vs vars ePos eVal i nodeValues state = Some r
        \<longrightarrow> fillEllipsis_loop (k + d) lib vals vs vars ePos eVal i nodeValues state = Some r)"
proof (induction k)
  case 0
  show ?case by simp
next
  case (Suc k)
  then have IH1: "\<And>lib vals vs vars state r. fillEllipsis k lib vals vs vars state = Some r
        \<Longrightarrow> fillEllipsis (k + d) lib vals vs vars state = Some r"
    and IH2: "\<And>lib vals vs vars ePos eVal i nodeValues state r.
        fillEllipsis_loop k lib vals vs vars ePos eVal i nodeValues state = Some r
        \<Longrightarrow> fillEllipsis_loop (k + d) lib vals vs vars ePos eVal i nodeValues state = Some r"
    by blast+
  have A: "fillEllipsis (Suc k + d) lib vals vs vars state = Some r"
    if "fillEllipsis (Suc k) lib vals vs vars state = Some r" for lib vals vs vars state r
    using that by (auto split: sum.splits dest: IH2)
  have B: "fillEllipsis_loop (Suc k + d) lib vals vs vars ePos eVal i nodeValues state = Some r"
    if h: "fillEllipsis_loop (Suc k) lib vals vs vars ePos eVal i nodeValues state = Some r"
    for lib vals vs vars ePos eVal i nodeValues state r
  proof (cases "i < length vs")
    case False
    then show ?thesis using h by simp
  next
    case True
    show ?thesis
    proof (cases "repeatHandling ePos eVal i state")
      case (Inl e)
      then show ?thesis using h True by simp
    next
      case (Inr b)
      obtain continue i' state' where b: "b = (continue, i', state')" by (cases b) auto
      show ?thesis
      proof (cases continue)
        case True
        then show ?thesis using h \<open>i < length vs\<close> Inr b by (auto dest: IH2)
      next
        case False
        show ?thesis
        proof (cases "vs ! i'")
          case (ListNode cvs cvars)
          show ?thesis
          proof (cases "fillEllipsis k lib vals cvs cvars state'")
            case None
            then show ?thesis using h \<open>i < length vs\<close> Inr b False ListNode by simp
          next
            case (Some y)
            note inner = IH1 [OF Some]
            show ?thesis using h \<open>i < length vs\<close> Inr b False ListNode Some inner
              by (auto split: sum.splits dest: IH2)
          qed
        qed (use h \<open>i < length vs\<close> Inr b False in \<open>auto split: sum.splits if_splits dest: IH2\<close>)
      qed
    qed
  qed
  show ?case using A B by blast
qed

lemma fillEllipsis_mono:
  "fillEllipsis k lib vals vs vars state = Some r \<Longrightarrow> k \<le> k'
   \<Longrightarrow> fillEllipsis k' lib vals vs vars state = Some r"
  using fillEllipsis_mono_aux [of k "k' - k"] by auto

lemma FillVariables_mono_aux:
  "(\<forall>lib item vals r. FillVariables k lib item vals = Some r
        \<longrightarrow> FillVariables (k + d) lib item vals = Some r) \<and>
   (\<forall>lib items vals r. FillVariables_loop k lib items vals = Some r
        \<longrightarrow> FillVariables_loop (k + d) lib items vals = Some r)"
proof (induction k)
  case 0
  have A: "FillVariables (0 + d) lib item vals = Some r"
    if "FillVariables 0 lib item vals = Some r" for lib item vals r
    using that by (cases item) auto
  have B: "FillVariables_loop (0 + d) lib items vals = Some r"
    if "FillVariables_loop 0 lib items vals = Some r" for lib items vals r
    using that
  proof (induction items arbitrary: r)
    case (Cons item rest)
    from Cons.prems obtain x where x: "FillVariables 0 lib item vals = Some x"
      by (auto split: option.splits)
    note x' = A [OF x]
    show ?case
    proof (cases x)
      case (Inl e)
      then show ?thesis using Cons.prems x x' by simp
    next
      case (Inr node)
      from Cons.prems x Inr obtain y where y: "FillVariables_loop 0 lib rest vals = Some y"
        by (auto split: option.splits)
      from Cons.IH [OF y] Cons.prems x x' Inr y show ?thesis by simp
    qed
  qed simp
  show ?case using A B by blast
next
  case (Suc k)
  then have IH1: "\<And>lib item vals r. FillVariables k lib item vals = Some r
        \<Longrightarrow> FillVariables (k + d) lib item vals = Some r"
    and IH2: "\<And>lib items vals r. FillVariables_loop k lib items vals = Some r
        \<Longrightarrow> FillVariables_loop (k + d) lib items vals = Some r"
    by blast+
  have A: "FillVariables (Suc k + d) lib item vals = Some r"
    if h: "FillVariables (Suc k) lib item vals = Some r" for lib item vals r
  proof (cases item)
    case (ListNode vs vars)
    obtain ev ov where sv: "splitValues vals = (ev, ov)" by (cases "splitValues vals")
    show ?thesis
    proof (cases "ellipsisAnalysis ev vs vars")
      case (Inl e)
      then show ?thesis using h sv ListNode by (simp del: ellipsisAnalysis.simps)
    next
      case (Inr b)
      obtain toFill remaining where b: "b = (toFill, remaining)" by (cases b)
      define X where "X j = (if toFill > 0
                 then (case fillEllipsis j lib ev vs vars (newFillState remaining) of
                         None \<Rightarrow> None
                       | Some (Inl err) \<Rightarrow> Some (Inl err)
                       | Some (Inr (node, state)) \<Rightarrow> Some (Inr node))
                 else Some (Inr (ListNode vs vars)))" for j
      define K where "K j y = (case y of
             Inl err \<Rightarrow> Some (Inl err)
           | Inr (ListNode vs' vars') \<Rightarrow>
               (case FillVariables_loop j lib vs' ov of
                  None \<Rightarrow> None
                | Some (Inl err) \<Rightarrow> Some (Inl err)
                | Some (Inr nodeValues) \<Rightarrow>
                    (case fillPositions ov vars' nodeValues False of
                       Inl err \<Rightarrow> Some (Inl err)
                     | Inr (nodeValues', createNew) \<Rightarrow> Some (NewListNode nodeValues')))
           | Inr _ \<Rightarrow>
               Some (Inl (Panic ''interface conversion: ItemNode is not *ListNode'')))" for j y
      have unf: "FillVariables (Suc j) lib (ListNode vs vars) vals
          = (case X j of None \<Rightarrow> None | Some y \<Rightarrow> K j y)" for j
      proof (cases "toFill > 0")
        case True
        show ?thesis
        proof (cases "fillEllipsis j lib ev vs vars (newFillState remaining)")
          case None
          then show ?thesis using True by (simp add: sv Inr b X_def K_def del: ellipsisAnalysis.simps)
        next
          case (Some z)
          then show ?thesis using True by (cases z) (auto simp add: sv Inr b X_def K_def simp del: ellipsisAnalysis.simps)
        qed
      next
        case False
        then show ?thesis by (simp add: sv Inr b X_def K_def del: ellipsisAnalysis.simps)
      qed
      from h obtain y where y: "X k = Some y" and ky: "K k y = Some r"
        unfolding ListNode unf by (auto split: option.splits)
      have y': "X (k + d) = Some y"
      proof (cases "toFill > 0")
        case True
        then obtain z where z: "fillEllipsis k lib ev vs vars (newFillState remaining) = Some z"
          using y by (auto simp: X_def split: option.splits)
        from fillEllipsis_mono [OF z, of "k + d"] y z True show ?thesis by (simp add: X_def)
      next
        case False
        then show ?thesis using y by (simp add: X_def)
      qed
      have ky': "K (k + d) y = Some r"
      proof (cases y)
        case (Inl e)
        then show ?thesis using ky by (auto simp: K_def)
      next
        case (Inr node)
        show ?thesis
        proof (cases node)
          case (ListNode vs' vars')
          from ky Inr ListNode obtain w where w: "FillVariables_loop k lib vs' ov = Some w"
            by (auto simp: K_def split: option.splits)
          from IH2 [OF w] ky Inr ListNode w show ?thesis by (simp add: K_def)
        qed (use ky Inr in \<open>simp_all add: K_def\<close>)
      qed
      show ?thesis unfolding ListNode using unf [of "k + d"] y' ky' by simp
    qed
  qed (use h in auto)
  have B: "FillVariables_loop (Suc k + d) lib items vals = Some r"
    if "FillVariables_loop (Suc k) lib items vals = Some r" for lib items vals r
    using that
  proof (induction items arbitrary: r)
    case (Cons item rest)
    from Cons.prems obtain x where x: "FillVariables (Suc k) lib item vals = Some x"
      by (auto split: option.splits)
    note x' = A [OF x]
    show ?case
    proof (cases x)
      case (Inl e)
      then show ?thesis using Cons.prems x x' by simp
    next
      case (Inr node)
      from Cons.prems x Inr obtain y where y: "FillVariables_loop (Suc k) lib rest vals = Some y"
        by (auto split: option.splits)
      from Cons.IH [OF y] Cons.prems x x' Inr y show ?thesis by simp
    qed
  qed simp
  show ?case using A B by blast
qed

lemma FillVariables_mono:
  "FillVariables k lib item vals = Some r \<Longrightarrow> k \<le> k' \<Longrightarrow> FillVariables k' lib item vals = Some r"
  using FillVariables_mono_aux [of k "k' - k"] by auto

subsection \<open>Ellipsis expansion\<close>

lemma ellipsis_example_fuel8:
  "FillVariables 8 lib
     (ListNode [ASCIINode [] (asciiNodeVariable ''var'' 0 (- 1)) False, emptyItemNode, emptyItemNode]
        [(''varNode'', 1), (''...'', 2)])
     [''...'' \<mapsto> GoInt 1]
   = Some (Inr (ListNode
        [ASCIINode [] (asciiNodeVariable ''var[0]'' 0 (- 1)) False, emptyItemNode,
         ASCIINode [] (asciiNodeVariable ''var[1]'' 0 (- 1)) False, emptyItemNode]
        [(''varNode[0]'', 1), (''varNode[1]'', 3)]))"
  by code_simp

lemma ellipsis_example_item:
  "NewASCIINodeVariable ''var'' 0 (- 1)
     = Inr (ASCIINode [] (asciiNodeVariable ''var'' 0 (- 1)) False)"
  "NewListNode [GoItem (ASCIINode [] (asciiNodeVariable ''var'' 0 (- 1)) False),
                GoString ''varNode'', GoString ''...'']
     = Inr (ListNode [ASCIINode [] (asciiNodeVariable ''var'' 0 (- 1)) False,
                      emptyItemNode, emptyItemNode] [(''varNode'', 1), (''...'', 2)])"
  by code_simp+

lemma ellipsis_example_observers:
  "Size (ListNode
        [ASCIINode [] (asciiNodeVariable ''var[0]'' 0 (- 1)) False, emptyItemNode,
         ASCIINode [] (asciiNodeVariable ''var[1]'' 0 (- 1)) False, emptyItemNode]
        [(''varNode[0]'', 1), (''varNode[1]'', 3)]) = 4"
  "Variables (ListNode
        [ASCIINode [] (asciiNodeVariable ''var[0]'' 0 (- 1)) False, emptyItemNode,
         ASCIINode [] (asciiNodeVariable ''var[1]'' 0 (- 1)) False, emptyItemNode]
        [(''varNode[0]'', 1), (''varNode[1]'', 3)])
     = [''var[0]'', ''varNode[0]'', ''var[1]'', ''varNode[1]'']"
  by code_simp+

text \<open>
  Claim C8.  The item \<open><L <A var> varNode ...>\<close>, built with the factories, filled with the
  map \<open>{"...": 1}\<close>: with fuel 8 or more, \<open>FillVariables\<close> returns a list of size 4 whose
  variables are \<open>var[0]\<close>, \<open>varNode[0]\<close>, \<open>var[1]\<close>, \<open>varNode[1]\<close> in this order: the two slots
  before the ellipsis occur twice, and the variables of each copy carry the index of the
  repetition.
\<close>

theorem ellipsis_expansion:
  "8 \<le> fuel \<Longrightarrow>
   (\<exists>a l r.
      NewASCIINodeVariable ''var'' 0 (- 1) = Inr a
      \<and> NewListNode [GoItem a, GoString ''varNode'', GoString ''...''] = Inr l
      \<and> FillVariables fuel lib l [''...'' \<mapsto> GoInt 1] = Some (Inr r)
      \<and> Size r = 4
      \<and> Variables r = [''var[0]'', ''varNode[0]'', ''var[1]'', ''varNode[1]'']
      \<and> r = ListNode
        [ASCIINode [] (asciiNodeVariable ''var[0]'' 0 (- 1)) False, emptyItemNode,
         ASCIINode [] (asciiNodeVariable ''var[1]'' 0 (- 1)) False, emptyItemNode]
        [(''varNode[0]'', 1), (''varNode[1]'', 3)])"
  using FillVariables_mono [OF ellipsis_example_fuel8, of fuel lib]
    ellipsis_example_item ellipsis_example_observers
  by simp

theorem ellipsis_expansion_witness:
  "\<exists>r. FillVariables 8 nolib
     (ListNode [ASCIINode [] (asciiNodeVariable ''var'' 0 (- 1)) False, emptyItemNode, emptyItemNode]
        [(''varNode'', 1), (''...'', 2)]) [''...'' \<mapsto> GoInt 1] = Some (Inr r)
     \<and> Size r = 4"
  using ellipsis_expansion [of 8 nolib] ellipsis_example_item by simp

subsection \<open>Variable names and the empty fill of the ellipsis\<close>

lemma valid_first_char:
  "isValidVarName v \<Longrightarrow> \<exists>c cs. v = c # cs \<and> c \<noteq> CHR ''.'' \<and> c \<noteq> CHR ''0''"
  by (cases v) (auto simp: isValidVarName_def isWordChar_def isDigit_def)

lemma valid_not_ellipsis: "isValidVarName v \<Longrightarrow> \<not> isEllipsis v"
  by (auto dest!: valid_first_char simp: isEllipsis_def)

lemma valid_not_binary_literal: "isValidVarName v \<Longrightarrow> take 2 v \<noteq> ''0b''"
  by (auto dest!: valid_first_char)

lemma valid_nonempty: "isValidVarName v \<Longrightarrow> v \<noteq> []"
  by (auto dest!: valid_first_char)

lemma splitValues_single:
  "\<not> isEllipsis v \<Longrightarrow> splitValues [v \<mapsto> x] = (Map.empty, [v \<mapsto> x])"
  by (auto simp: splitValues_def fun_eq_iff)

lemma ellipsisAnalysis_vars_empty:
  "\<exists>rm'. ellipsisAnalysis_vars Map.empty vars (tf, rm, ev) = Inr (tf, rm', ev)"
  by (induction vars arbitrary: rm) auto

lemma ellipsisAnalysis_loop_empty:
  assumes "\<And>cvs cvars. ListNode cvs cvars \<in> set vs
             \<Longrightarrow> \<exists>rm. ellipsisAnalysis Map.empty cvs cvars = Inr (0, rm)"
  shows "\<exists>rm'. ellipsisAnalysis_loop Map.empty ev vs (0, rm0) = Inr (0, rm')"
  using assms
proof (induction vs arbitrary: rm0)
  case (Cons item rest)
  show ?case
  proof (cases item)
    case (ListNode cvs cvars)
    then obtain er where er: "ellipsisAnalysis Map.empty cvs cvars = Inr (0, er)"
      using Cons.prems by auto
    show ?thesis using ListNode er Cons.IH [of "rm0 + (ev + 1) * er"] Cons.prems
      by (simp del: ellipsisAnalysis.simps)
  qed (use Cons in \<open>auto simp del: ellipsisAnalysis.simps\<close>)
qed simp

lemma ellipsisAnalysis_empty_item:
  "item = ListNode vs vars \<Longrightarrow> \<exists>rm. ellipsisAnalysis Map.empty vs vars = Inr (0, rm)"
proof (induction item arbitrary: vs vars)
  case (ListNode vs0 vars0)
  then have eq: "vs0 = vs" "vars0 = vars" by simp_all
  obtain rm' where a: "ellipsisAnalysis_vars Map.empty vars (0, 0, 0) = Inr (0, rm', 0)"
    using ellipsisAnalysis_vars_empty by blast
  have "\<exists>rm''. ellipsisAnalysis_loop Map.empty 0 vs (0, rm') = Inr (0, rm'')"
    by (rule ellipsisAnalysis_loop_empty) (use ListNode.IH eq in blast)
  then show ?case using a by simp
qed simp_all

lemma ellipsisAnalysis_empty: "\<exists>rm. ellipsisAnalysis Map.empty vs vars = Inr (0, rm)"
  using ellipsisAnalysis_empty_item by blast

subsection \<open>The factory loop and the loop over the variables\<close>

lemma variablesSwapKeyValue_slotName:
  "variablesSwapKeyValue vars i = (case slotName vars i of None \<Rightarrow> [] | Some k \<Rightarrow> k)"
  by (simp add: variablesSwapKeyValue_def slotName_def)

lemma slotName_Some_iff:
  assumes "distinct (map snd vars)"
  shows "slotName vars i = Some nm \<longleftrightarrow> (nm, i) \<in> set vars"
proof -
  have d: "distinct (map fst (map (\<lambda>(k, v). (v, k)) vars))"
    using assms by (simp add: comp_def case_prod_unfold)
  have "map_of (map (\<lambda>(k, v). (v, k)) vars) i = Some nm \<longleftrightarrow> (i, nm) \<in> set (map (\<lambda>(k, v). (v, k)) vars)"
    using d by (metis map_of_eq_Some_iff)
  then show ?thesis by (auto simp: slotName_def)
qed

lemma slotName_None_iff: "slotName vars i = None \<longleftrightarrow> i \<notin> snd ` set vars"
  by (force simp: slotName_def map_of_eq_None_iff image_iff case_prod_unfold)

lemma slotName_Cons:
  "slotName ((nm, p) # rest) i = (if i = p then Some nm else slotName rest i)"
  by (simp add: slotName_def)

lemma fillPositions_nth:
  assumes "fillPositions vals vars nv c = Inr (nv', c')" "distinct (map snd vars)"
  shows "length nv' = length nv \<and>
     (\<forall>i < length nv. nv' ! i =
        (case slotName vars i of
           None \<Rightarrow> nv ! i
         | Some nm \<Rightarrow> (case vals nm of Some y \<Rightarrow> y | None \<Rightarrow> GoString nm))) \<and>
     (c' \<longleftrightarrow> c \<or> (\<exists>nm \<in> fst ` set vars. vals nm \<noteq> None))"
  using assms
proof (induction vars arbitrary: nv c)
  case Nil
  then show ?case by (simp add: slotName_def)
next
  case (Cons a rest)
  obtain nm p where a: "a = (nm, p)" by (cases a)
  from Cons.prems have p: "p < length nv" by (auto simp: a split: if_splits)
  define y where "y = (case vals nm of Some y \<Rightarrow> y | None \<Rightarrow> GoString nm)"
  define c1 where "c1 = (c \<or> vals nm \<noteq> None)"
  have step: "fillPositions vals rest (nv[p := y]) c1 = Inr (nv', c')"
    using Cons.prems(1) p by (auto simp: a y_def c1_def split: option.splits)
  have d: "distinct (map snd rest)" and pn: "p \<notin> snd ` set rest"
    using Cons.prems(2) by (auto simp: a)
  note IH = Cons.IH [OF step d]
  have none: "slotName rest p = None" using pn by (simp add: slotName_None_iff)
  show ?case
  proof (intro conjI allI impI)
    show "length nv' = length nv" using IH by simp
  next
    fix i assume i: "i < length nv"
    then have "nv' ! i = (case slotName rest i of None \<Rightarrow> nv[p := y] ! i
         | Some nm \<Rightarrow> (case vals nm of Some y \<Rightarrow> y | None \<Rightarrow> GoString nm))"
      using IH by simp
    then show "nv' ! i = (case slotName (a # rest) i of None \<Rightarrow> nv ! i
         | Some nm \<Rightarrow> (case vals nm of Some y \<Rightarrow> y | None \<Rightarrow> GoString nm))"
      using none p by (auto simp: a slotName_Cons y_def split: option.splits)
  next
    show "c' \<longleftrightarrow> c \<or> (\<exists>nm \<in> fst ` set (a # rest). vals nm \<noteq> None)"
      using IH by (auto simp: a c1_def)
  qed
qed

lemma scanValues_Inr:
  "scanValues conv zero ty i nv0 nvars0 xs = Inr (nv, nvars)
   \<Longrightarrow> nvars = nvars0 @ scannedVars conv i xs \<and> nv = nv0 @ map (scannedVal conv zero) xs"
proof (induction xs arbitrary: i nv0 nvars0)
  case Nil
  then show ?case by simp
next
  case (Cons x xs)
  show ?case
  proof (cases "conv x")
    case None
    show ?thesis
    proof (cases x)
      case (GoString nm)
      with None Cons.prems
      have "scanValues conv zero ty (Suc i) (nv0 @ [zero]) (nvars0 @ [(nm, i)]) xs = Inr (nv, nvars)"
        by (auto split: if_splits)
      from Cons.IH [OF this] show ?thesis using None GoString by (simp add: scannedVal_def)
    qed (use None Cons.prems in auto)
  next
    case (Some y)
    show ?thesis
    proof (cases y)
      case (Inl e)
      then show ?thesis using Some Cons.prems by simp
    next
      case (Inr z)
      with Some Cons.prems
      have "scanValues conv zero ty (Suc i) (nv0 @ [z]) nvars0 xs = Inr (nv, nvars)" by simp
      from Cons.IH [OF this] show ?thesis using Some Inr by (simp add: scannedVal_def)
    qed
  qed
qed

lemma scannedVars_set:
  "(nm, p) \<in> set (scannedVars conv i xs) \<longleftrightarrow>
     i \<le> p \<and> p < i + length xs \<and> xs ! (p - i) = GoString nm \<and> conv (GoString nm) = None"
proof (induction xs arbitrary: i)
  case Nil
  then show ?case by simp
next
  case (Cons x xs)
  have "(nm, p) \<in> set (case conv x of None \<Rightarrow> (case x of GoString nm \<Rightarrow> [(nm, i)] | _ \<Rightarrow> [])
                         | Some y \<Rightarrow> [])
        \<longleftrightarrow> p = i \<and> x = GoString nm \<and> conv (GoString nm) = None"
    by (auto split: option.splits GoValue.splits)
  moreover have "(nm, p) \<in> set (scannedVars conv (Suc i) xs) \<longleftrightarrow>
     Suc i \<le> p \<and> p < Suc i + length xs \<and> xs ! (p - Suc i) = GoString nm \<and> conv (GoString nm) = None"
    by (rule Cons.IH)
  ultimately show ?case
    by (auto simp: nth_Cons' Suc_diff_le less_Suc_eq_le)
qed

lemma scannedVars_sorted: "sorted_wrt (<) (map snd (scannedVars conv i xs))"
proof (induction xs arbitrary: i)
  case Nil
  then show ?case by simp
next
  case (Cons x xs)
  have "\<forall>q \<in> set (map snd (scannedVars conv (Suc i) xs)). i < q"
    by (auto simp: scannedVars_set)
  then show ?case using Cons.IH [of "Suc i"]
    by (auto simp: sorted_wrt_append split: option.splits GoValue.splits)
qed

lemma checkVariables_None:
  "checkVariables isZero values visited vars = None
   \<Longrightarrow> distinct (map snd vars) \<and>
       (\<forall>(nm, p) \<in> set vars. p < length values \<and> isValidVarName nm \<and> p \<notin> set visited)"
proof (induction vars arbitrary: visited)
  case Nil
  then show ?case by simp
next
  case (Cons a rest)
  obtain nm p where a: "a = (nm, p)" by (cases a)
  from Cons.prems have h: "p < length values" "isValidVarName nm" "p \<notin> set visited"
      "checkVariables isZero values (p # visited) rest = None"
    by (auto simp: a split: if_splits)
  from Cons.IH [OF h(4)] h show ?case by (auto simp: a)
qed

lemma distinct_map_sort_key:
  "distinct (map f xs) \<Longrightarrow> distinct (map f (sort_key g xs))"
  by (simp add: distinct_map)

lemma filter_neq_removeAll: "filter (\<lambda>n. n \<noteq> v) xs = removeAll v xs"
  by (induction xs) auto

lemma typed_fill_names:
  assumes cv: "checkVariables isZero values [] vars = None"
    and conv_boxed: "\<forall>b \<in> set boxed. conv b \<noteq> None"
    and conv_names: "\<forall>nm. isValidVarName nm \<longrightarrow> conv (GoString nm) = None"
    and len: "length boxed = length values"
    and acc: "v \<in> fst ` set vars \<longrightarrow> conv x \<noteq> None"
    and fp: "fillPositions [v \<mapsto> x] vars boxed False = Inr (nodeValues, createNew)"
    and sc: "scanValues conv zero ty 0 [] [] nodeValues = Inr (nv, nvars)"
  shows "getVariableNames nvars = removeAll v (getVariableNames vars)"
proof -
  from checkVariables_None [OF cv]
  have d: "distinct (map snd vars)"
    and vars: "\<And>nm p. (nm, p) \<in> set vars \<Longrightarrow> p < length values \<and> isValidVarName nm"
    by auto
  from fillPositions_nth [OF fp d]
  have nlen: "length nodeValues = length boxed"
    and nth: "\<And>i. i < length boxed \<Longrightarrow> nodeValues ! i =
        (case slotName vars i of
           None \<Rightarrow> boxed ! i
         | Some nm \<Rightarrow> (case [v \<mapsto> x] nm of Some y \<Rightarrow> y | None \<Rightarrow> GoString nm))"
    by auto
  from scanValues_Inr [OF sc] have nvars: "nvars = scannedVars conv 0 nodeValues" by simp
  let ?ys = "filter (\<lambda>(nm, p). nm \<noteq> v) (sort_key snd vars)"
  have set_eq: "set nvars = set ?ys"
  proof (rule set_eqI)
    fix e :: "string \<times> nat"
    obtain nm p where e: "e = (nm, p)" by (cases e)
    have "(nm, p) \<in> set nvars \<longleftrightarrow> (nm, p) \<in> set vars \<and> nm \<noteq> v"
    proof
      assume "(nm, p) \<in> set nvars"
      then have p: "p < length boxed" and g: "nodeValues ! p = GoString nm"
        and c: "conv (GoString nm) = None"
        by (auto simp: nvars scannedVars_set nlen)
      show "(nm, p) \<in> set vars \<and> nm \<noteq> v"
      proof (cases "slotName vars p")
        case None
        then have "nodeValues ! p = boxed ! p" using nth [OF p] by simp
        then have "conv (boxed ! p) = None" using g c by simp
        then show ?thesis using conv_boxed p by (metis nth_mem)
      next
        case (Some nm')
        then have in_vars: "(nm', p) \<in> set vars" using slotName_Some_iff [OF d] by simp
        show ?thesis
        proof (cases "nm' = v")
          case True
          then have "nodeValues ! p = x" using nth [OF p] Some by simp
          then have "conv x = None" using g c by simp
          moreover have "v \<in> fst ` set vars" using in_vars True by force
          ultimately show ?thesis using acc by simp
        next
          case False
          then have "nodeValues ! p = GoString nm'" using nth [OF p] Some by simp
          then show ?thesis using g in_vars False by simp
        qed
      qed
    next
      assume h: "(nm, p) \<in> set vars \<and> nm \<noteq> v"
      then have p: "p < length boxed" and valid: "isValidVarName nm" using vars len by auto
      have "slotName vars p = Some nm" using h slotName_Some_iff [OF d] by simp
      then have "nodeValues ! p = GoString nm" using nth [OF p] h by simp
      then show "(nm, p) \<in> set nvars"
        using p valid conv_names by (simp add: nvars scannedVars_set nlen)
    qed
    then show "e \<in> set nvars \<longleftrightarrow> e \<in> set ?ys" by (auto simp: e)
  qed
  have strict: "sorted_wrt (<) (map snd nvars)" unfolding nvars by (rule scannedVars_sorted)
  have "nvars = ?ys"
  proof (rule map_sorted_distinct_set_unique [where f = snd])
    have "set nvars \<union> set ?ys \<subseteq> set vars" using set_eq by auto
    moreover have "inj_on snd (set vars)" using d by (simp add: distinct_map)
    ultimately show "inj_on snd (set nvars \<union> set ?ys)" by (rule inj_on_subset [rotated])
    show "sorted (map snd nvars)" "distinct (map snd nvars)"
      using strict by (simp_all add: strict_sorted_iff)
    show "sorted (map snd ?ys)" by (intro sorted_filter sorted_sort_key)
    show "distinct (map snd ?ys)" by (intro distinct_map_filter distinct_map_sort_key d)
    show "set nvars = set ?ys" by (rule set_eq)
  qed
  moreover have "sort_key snd nvars = nvars"
    using strict by (intro sort_key_id_if_sorted) (simp add: strict_sorted_iff)
  ultimately show ?thesis
    by (simp add: getVariableNames_def filter_map comp_def case_prod_unfold
        flip: filter_neq_removeAll)
qed

subsection \<open>Filling a list without an ellipsis value\<close>

lemma depths_child: "c \<in> set vs \<Longrightarrow> depth c \<le> depths vs"
  by (induction vs) auto

lemma ListNode_checkVariables_facts:
  "ListNode_checkVariables vs e visited vars = None
   \<Longrightarrow> distinct (map snd vars) \<and>
       (\<forall>(nm, p) \<in> set vars. p < length vs \<and> vs ! p = emptyItemNode \<and> p \<notin> set visited)"
proof (induction vars arbitrary: e visited)
  case Nil
  then show ?case by simp
next
  case (Cons a rest)
  obtain nm p where a: "a = (nm, p)" by (cases a)
  from Cons.prems have h: "p < length vs" "vs ! p = emptyItemNode" "p \<notin> set visited"
      "ListNode_checkVariables vs (e \<or> \<not> isValidVarName nm) (p # visited) rest = None"
    by (auto simp: a split: if_splits)
  from Cons.IH [OF h(4)] h show ?case by (auto simp: a)
qed

lemma Variables_loop_concat:
  "Variables_loop posVar i vs =
     concat (map (\<lambda>j. if vs ! j = emptyItemNode then [posVar (i + j)] else Variables (vs ! j))
               [0..<length vs])"
proof (induction vs arbitrary: i)
  case Nil
  show ?case by simp
next
  case (Cons c cs)
  have "[0..<length (c # cs)] = 0 # map Suc [0..<length cs]"
    by (simp add: upt_conv_Cons map_Suc_upt del: upt_Suc)
  then show ?case by (simp add: Cons.IH [of "Suc i"] comp_def del: upt_Suc cong: if_cong)
qed

lemma FillVariables_loop_Some:
  "(\<And>c. c \<in> set vs \<Longrightarrow> \<exists>r. FillVariables k lib c vals = Some r)
   \<Longrightarrow> \<exists>r. FillVariables_loop k lib vs vals = Some r"
proof (induction vs)
  case Nil
  show ?case by simp
next
  case (Cons c cs)
  obtain r where r: "FillVariables k lib c vals = Some r" using Cons.prems by auto
  obtain rs where rs: "FillVariables_loop k lib cs vals = Some rs" using Cons by auto
  show ?case using r rs by (cases r; cases rs) auto
qed

lemma FillVariables_loop_Inr:
  "FillVariables_loop k lib vs vals = Some (Inr nvs)
   \<Longrightarrow> length nvs = length vs \<and>
       (\<forall>i < length vs. \<exists>m'. nvs ! i = GoItem m'
                          \<and> FillVariables k lib (vs ! i) vals = Some (Inr m'))"
proof (induction vs arbitrary: nvs)
  case Nil
  then show ?case by simp
next
  case (Cons c cs)
  from Cons.prems obtain m' rest where
    c: "FillVariables k lib c vals = Some (Inr m')"
    and cs: "FillVariables_loop k lib cs vals = Some (Inr rest)"
    and nvs: "nvs = GoItem m' # rest"
    by (auto split: option.splits sum.splits)
  from Cons.IH [OF cs] c show ?case by (auto simp: nvs nth_Cons')
qed

lemma FillVariables_ListNode_single:
  assumes "isValidVarName v"
  shows "FillVariables (Suc k) lib (ListNode vs vars) [v \<mapsto> x] =
     (case FillVariables_loop k lib vs [v \<mapsto> x] of
        None \<Rightarrow> None
      | Some (Inl err) \<Rightarrow> Some (Inl err)
      | Some (Inr nodeValues) \<Rightarrow>
          (case fillPositions [v \<mapsto> x] vars nodeValues False of
             Inl err \<Rightarrow> Some (Inl err)
           | Inr (nodeValues', createNew) \<Rightarrow> Some (NewListNode nodeValues')))"
proof -
  obtain rm where "ellipsisAnalysis Map.empty vs vars = Inr (0, rm)"
    using ellipsisAnalysis_empty by blast
  then show ?thesis
    using splitValues_single [OF valid_not_ellipsis [OF assms], of x]
    by (simp del: ellipsisAnalysis.simps)
qed

lemma NewListNode_Inr:
  "NewListNode xs = Inr m'
   \<Longrightarrow> m' = ListNode (map (scannedVal ListNode_conv emptyItemNode) xs)
                     (scannedVars ListNode_conv 0 xs)"
  by (auto simp: NewListNode_def split: if_splits sum.splits option.splits
       dest!: scanValues_Inr)

lemma list_fill_names:
  assumes cv: "ListNode_checkVariables vs False [] vars = None"
    and valid: "isValidVarName v"
    and acc: "v \<in> fst ` set vars \<longrightarrow>
         (case x of GoItem it \<Rightarrow> it \<noteq> emptyItemNode \<and> Variables it = [] | _ \<Rightarrow> False)"
    and len: "length nodeValues = length vs"
    and kids: "\<And>i. i < length vs \<Longrightarrow> \<exists>c'. nodeValues ! i = GoItem c'
          \<and> Variables c' = removeAll v (Variables (vs ! i))
          \<and> (c' = emptyItemNode \<longleftrightarrow> vs ! i = emptyItemNode)"
    and fp: "fillPositions [v \<mapsto> x] vars nodeValues False = Inr (nodeValues', createNew)"
    and new: "NewListNode nodeValues' = Inr m'"
  shows "Variables m' = removeAll v (Variables (ListNode vs vars))"
proof -
  from ListNode_checkVariables_facts [OF cv]
  have d: "distinct (map snd vars)"
    and vars: "\<And>nm p. (nm, p) \<in> set vars \<Longrightarrow> p < length vs \<and> vs ! p = emptyItemNode"
    by auto
  from fillPositions_nth [OF fp d]
  have nlen: "length nodeValues' = length vs"
    and nth: "\<And>i. i < length vs \<Longrightarrow> nodeValues' ! i =
        (case slotName vars i of
           None \<Rightarrow> nodeValues ! i
         | Some nm \<Rightarrow> (case [v \<mapsto> x] nm of Some y \<Rightarrow> y | None \<Rightarrow> GoString nm))"
    using len by auto
  define nv where "nv = map (scannedVal ListNode_conv emptyItemNode) nodeValues'"
  define nvars where "nvars = scannedVars ListNode_conv 0 nodeValues'"
  have m': "m' = ListNode nv nvars" using NewListNode_Inr [OF new] by (simp add: nv_def nvars_def)
  have nvlen: "length nv = length vs" by (simp add: nv_def nlen)
  have dn: "distinct (map snd nvars)"
    using scannedVars_sorted [of ListNode_conv 0 nodeValues']
    by (simp add: nvars_def strict_sorted_iff)
  have in_nvars: "(nm, p) \<in> set nvars \<longleftrightarrow> p < length vs \<and> nodeValues' ! p = GoString nm" for nm p
    by (simp add: nvars_def scannedVars_set nlen ListNode_conv_def)
  have vne: "v \<noteq> []" using valid by (rule valid_nonempty)
  have slot: "(if nv ! j = emptyItemNode then [variablesSwapKeyValue nvars j] else Variables (nv ! j))
      = removeAll v (if vs ! j = emptyItemNode then [variablesSwapKeyValue vars j]
                     else Variables (vs ! j))"
    if j: "j < length vs" for j
  proof (cases "slotName vars j")
    case None
    obtain c' where c': "nodeValues ! j = GoItem c'"
        "Variables c' = removeAll v (Variables (vs ! j))"
        "c' = emptyItemNode \<longleftrightarrow> vs ! j = emptyItemNode"
      using kids [OF j] by blast
    have nj: "nodeValues' ! j = GoItem c'" using nth [OF j] None c' by simp
    then have nvj: "nv ! j = c'" using j by (simp add: nv_def nlen scannedVal_def ListNode_conv_def)
    have "slotName nvars j = None"
      using nj by (auto simp: slotName_None_iff in_nvars)
    then show ?thesis
      using None nvj c' vne by (auto simp: variablesSwapKeyValue_slotName)
  next
    case (Some nm)
    then have mem: "(nm, j) \<in> set vars" using slotName_Some_iff [OF d] by simp
    then have empty: "vs ! j = emptyItemNode" using vars by blast
    show ?thesis
    proof (cases "nm = v")
      case True
      then have "v \<in> fst ` set vars" using mem by force
      then obtain it where x: "x = GoItem it" "it \<noteq> emptyItemNode" "Variables it = []"
        using acc by (auto split: GoValue.splits)
      have "nodeValues' ! j = x" using nth [OF j] Some True by simp
      then have "nv ! j = it" using j x by (simp add: nv_def nlen scannedVal_def ListNode_conv_def)
      then show ?thesis using x empty Some True by (simp add: variablesSwapKeyValue_slotName)
    next
      case False
      then have nj: "nodeValues' ! j = GoString nm" using nth [OF j] Some by simp
      then have nvj: "nv ! j = emptyItemNode"
        using j by (simp add: nv_def nlen scannedVal_def ListNode_conv_def)
      have "slotName nvars j = Some nm"
        using nj j by (simp add: slotName_Some_iff [OF dn] in_nvars)
      then show ?thesis
        using nvj empty Some False by (simp add: variablesSwapKeyValue_slotName)
    qed
  qed
  have "Variables m' = concat (map (\<lambda>j. if nv ! j = emptyItemNode
            then [variablesSwapKeyValue nvars j] else Variables (nv ! j)) [0..<length vs])"
    by (simp add: m' Variables_loop_concat nvlen cong: if_cong)
  also have "\<dots> = concat (map (\<lambda>j. removeAll v (if vs ! j = emptyItemNode
            then [variablesSwapKeyValue vars j] else Variables (vs ! j))) [0..<length vs])"
    by (rule arg_cong [where f = concat], rule map_cong) (simp_all add: slot)
  also have "\<dots> = removeAll v (Variables (ListNode vs vars))"
    by (simp add: Variables_loop_concat removeAll_filter_not_eq filter_concat comp_def cong: if_cong)
  finally show ?thesis .
qed

subsection \<open>Variable closure\<close>

lemma getVariableNames_set: "set (getVariableNames vars) = fst ` set vars"
  by (simp add: getVariableNames_def)

lemma typed_fill:
  assumes cv: "checkVariables isZero values [] vars = None"
    and conv_boxed: "\<forall>b \<in> set boxed. conv b \<noteq> None"
    and conv_names: "\<forall>nm. isValidVarName nm \<longrightarrow> conv (GoString nm) = None"
    and len: "length boxed = length values"
    and acc: "v \<in> fst ` set vars \<longrightarrow> conv x \<noteq> None"
    and node: "Variables node = getVariableNames vars" "node \<noteq> emptyItemNode"
    and factory: "\<And>nvs r. factory nvs = Inr r \<Longrightarrow> r \<noteq> emptyItemNode \<and>
        (\<exists>nv nvars. scanValues conv zero ty 0 [] [] nvs = Inr (nv, nvars)
                     \<and> Variables r = getVariableNames nvars)"
    and fill: "typedFillVariables node vars boxed factory [v \<mapsto> x] = Inr m'"
  shows "Variables m' = removeAll v (Variables node)
    \<and> (m' = emptyItemNode \<longleftrightarrow> node = emptyItemNode)"
proof (cases "vars = []")
  case True
  then show ?thesis using fill node by (simp add: typedFillVariables_def getVariableNames_def)
next
  case False
  from checkVariables_None [OF cv] have d: "distinct (map snd vars)" by simp
  from fill False obtain nodeValues createNew where
    fp: "fillPositions [v \<mapsto> x] vars boxed False = Inr (nodeValues, createNew)"
    and res: "(if \<not> createNew then Inr node else factory nodeValues) = Inr m'"
    by (auto simp: typedFillVariables_def split: sum.splits)
  from fillPositions_nth [OF fp d]
  have cn: "createNew \<longleftrightarrow> v \<in> fst ` set vars" by (auto split: if_splits)
  show ?thesis
  proof (cases createNew)
    case False
    then have "m' = node" using res by simp
    moreover have "v \<notin> set (getVariableNames vars)"
      using False cn by (simp add: getVariableNames_set)
    ultimately show ?thesis using node by (simp add: removeAll_id)
  next
    case True
    then have f: "factory nodeValues = Inr m'" using res by simp
    from factory [OF f] obtain nv nvars where
      sc: "scanValues conv zero ty 0 [] [] nodeValues = Inr (nv, nvars)"
      and vm: "Variables m' = getVariableNames nvars" and ne: "m' \<noteq> emptyItemNode"
      by blast
    from typed_fill_names [OF cv conv_boxed conv_names len acc fp sc] vm ne node
    show ?thesis by simp
  qed
qed

lemma variable_closure_aux:
  assumes valid: "isValidVarName v"
  shows "constructed m \<Longrightarrow> acceptable lib v x m \<Longrightarrow> depth m \<le> k \<Longrightarrow>
     \<exists>r. FillVariables k lib m [v \<mapsto> x] = Some r
        \<and> (\<forall>m'. r = Inr m' \<longrightarrow> Variables m' = removeAll v (Variables m)
                              \<and> (m' = emptyItemNode \<longleftrightarrow> m = emptyItemNode))"
proof (induction m arbitrary: k)
  case emptyItemNode
  show ?case by simp
next
  case (ListNode vs vars)
  from ListNode.prems(3) obtain k' where k: "k = Suc k'" and dk: "depths vs \<le> k'"
    by (cases k) auto
  from ListNode.prems(1) have cv: "ListNode_checkVariables vs False [] vars = None"
    by (simp add: ListNode_checkRep_def del: ListNode_checkVariables.simps split: option.splits)
  have kids: "\<exists>r. FillVariables k' lib c [v \<mapsto> x] = Some r
        \<and> (\<forall>c'. r = Inr c' \<longrightarrow> Variables c' = removeAll v (Variables c)
                              \<and> (c' = emptyItemNode \<longleftrightarrow> c = emptyItemNode))"
    if c: "c \<in> set vs" for c
  proof (rule ListNode.IH [OF c])
    show "constructed c" using ListNode.prems(1) c by simp
    show "acceptable lib v x c" using ListNode.prems(2) c by simp
    show "depth c \<le> k'" using depths_child [OF c] dk by simp
  qed
  then obtain R where R: "FillVariables_loop k' lib vs [v \<mapsto> x] = Some R"
    using FillVariables_loop_Some [of vs k' lib "[v \<mapsto> x]"] by blast
  note unf = FillVariables_ListNode_single [OF valid, of k' lib vs vars x]
  show ?case
  proof (cases R)
    case (Inl e)
    then show ?thesis unfolding k unf using R by simp
  next
    case (Inr nodeValues)
    from FillVariables_loop_Inr [OF R [unfolded Inr]]
    have len: "length nodeValues = length vs"
      and each: "\<And>i. i < length vs \<Longrightarrow> \<exists>c'. nodeValues ! i = GoItem c'
            \<and> FillVariables k' lib (vs ! i) [v \<mapsto> x] = Some (Inr c')"
      by blast+
    have kids': "\<exists>c'. nodeValues ! i = GoItem c'
          \<and> Variables c' = removeAll v (Variables (vs ! i))
          \<and> (c' = emptyItemNode \<longleftrightarrow> vs ! i = emptyItemNode)"
      if i: "i < length vs" for i
    proof -
      from each [OF i] obtain c' where c': "nodeValues ! i = GoItem c'"
        "FillVariables k' lib (vs ! i) [v \<mapsto> x] = Some (Inr c')" by blast
      from kids [of "vs ! i"] i c'(2)
      have "Variables c' = removeAll v (Variables (vs ! i))
          \<and> (c' = emptyItemNode \<longleftrightarrow> vs ! i = emptyItemNode)" by simp
      with c'(1) show ?thesis by blast
    qed
    show ?thesis
    proof (cases "fillPositions [v \<mapsto> x] vars nodeValues False")
      case (Inl e)
      then show ?thesis unfolding k unf using R Inr by simp
    next
      case fp: (Inr b)
      obtain nodeValues' createNew where b: "b = (nodeValues', createNew)" by (cases b)
      have res: "FillVariables k lib (ListNode vs vars) [v \<mapsto> x] = Some (NewListNode nodeValues')"
        unfolding k unf using R Inr fp b by simp
      have "Variables m' = removeAll v (Variables (ListNode vs vars))
          \<and> (m' = emptyItemNode \<longleftrightarrow> ListNode vs vars = emptyItemNode)"
        if new: "NewListNode nodeValues' = Inr m'" for m'
      proof
        show "Variables m' = removeAll v (Variables (ListNode vs vars))"
          using cv valid _ len kids' fp [unfolded b] new
        proof (rule list_fill_names)
          show "v \<in> fst ` set vars \<longrightarrow>
            (case x of GoItem it \<Rightarrow> it \<noteq> emptyItemNode \<and> Variables it = [] | _ \<Rightarrow> False)"
            using ListNode.prems(2) by simp
        qed
        show "m' = emptyItemNode \<longleftrightarrow> ListNode vs vars = emptyItemNode"
          using NewListNode_Inr [OF new] by simp
      qed
      then show ?thesis unfolding res by blast
    qed
  qed
next
  case (ASCIINode val var isValue)
  show ?case
    by (auto simp: ASCIINode_FillVariables_def NewASCIINode_def
        split: option.splits GoValue.splits if_splits)
next
  case (BinaryNode vals vars)
  have tf: "Variables m' = removeAll v (Variables (BinaryNode vals vars))
      \<and> (m' = emptyItemNode \<longleftrightarrow> BinaryNode vals vars = emptyItemNode)"
    if fill: "BinaryNode_FillVariables lib vals vars [v \<mapsto> x] = Inr m'" for m'
  proof (rule typed_fill [where conv = "BinaryNode_conv lib" and zero = 0 and ty = "''BinaryNode''"
        and isZero = "\<lambda>v. v = 0" and boxed = "map GoInt vals"
        and factory = "NewBinaryNode lib" and vars = vars])
    show "checkVariables (\<lambda>v. v = 0) vals [] vars = None"
      using BinaryNode.prems(1) by (simp add: BinaryNode_checkRep_def split: if_splits)
    show "\<forall>b \<in> set (map GoInt vals). BinaryNode_conv lib b \<noteq> None"
      by (auto simp: BinaryNode_conv_def)
    show "\<forall>nm. isValidVarName nm \<longrightarrow> BinaryNode_conv lib (GoString nm) = None"
      by (auto simp: BinaryNode_conv_def dest: valid_not_binary_literal)
    show "v \<in> fst ` set vars \<longrightarrow> BinaryNode_conv lib x \<noteq> None"
      using BinaryNode.prems(2) by simp
    show "typedFillVariables (BinaryNode vals vars) vars (map GoInt vals) (NewBinaryNode lib)
        [v \<mapsto> x] = Inr m'"
      using fill by (simp add: BinaryNode_FillVariables_def)
    show "r \<noteq> emptyItemNode \<and> (\<exists>nv nvars.
        scanValues (BinaryNode_conv lib) 0 ''BinaryNode'' 0 [] [] nvs = Inr (nv, nvars)
        \<and> Variables r = getVariableNames nvars)"
      if "NewBinaryNode lib nvs = Inr r" for nvs r
      using that by (auto simp: NewBinaryNode_def split: if_splits sum.splits option.splits)
  qed simp_all
  show ?case unfolding FillVariables.simps using tf by blast
next
  case (BooleanNode vals vars)
  have tf: "Variables m' = removeAll v (Variables (BooleanNode vals vars))
      \<and> (m' = emptyItemNode \<longleftrightarrow> BooleanNode vals vars = emptyItemNode)"
    if fill: "BooleanNode_FillVariables vals vars [v \<mapsto> x] = Inr m'" for m'
  proof (rule typed_fill [where conv = BooleanNode_conv and zero = False and ty = "''BooleanNode''"
        and isZero = "\<lambda>v. \<not> v" and boxed = "map GoBool vals"
        and factory = NewBooleanNode and vars = vars])
    show "checkVariables (\<lambda>v. \<not> v) vals [] vars = None"
      using BooleanNode.prems(1) by (simp add: BooleanNode_checkRep_def)
    show "\<forall>b \<in> set (map GoBool vals). BooleanNode_conv b \<noteq> None"
      by (auto simp: BooleanNode_conv_def)
    show "\<forall>nm. isValidVarName nm \<longrightarrow> BooleanNode_conv (GoString nm) = None"
      by (auto simp: BooleanNode_conv_def)
    show "v \<in> fst ` set vars \<longrightarrow> BooleanNode_conv x \<noteq> None"
      using BooleanNode.prems(2) by simp
    show "typedFillVariables (BooleanNode vals vars) vars (map GoBool vals) NewBooleanNode
        [v \<mapsto> x] = Inr m'"
      using fill by (simp add: BooleanNode_FillVariables_def)
    show "r \<noteq> emptyItemNode \<and> (\<exists>nv nvars.
        scanValues BooleanNode_conv False ''BooleanNode'' 0 [] [] nvs = Inr (nv, nvars)
        \<and> Variables r = getVariableNames nvars)"
      if "NewBooleanNode nvs = Inr r" for nvs r
      using that by (auto simp: NewBooleanNode_def split: if_splits sum.splits option.splits)
  qed simp_all
  show ?case unfolding FillVariables.simps using tf by blast
next
  case (IntNode byteSize vals vars)
  have tf: "Variables m' = removeAll v (Variables (IntNode byteSize vals vars))
      \<and> (m' = emptyItemNode \<longleftrightarrow> IntNode byteSize vals vars = emptyItemNode)"
    if fill: "IntNode_FillVariables byteSize vals vars [v \<mapsto> x] = Inr m'" for m'
  proof (rule typed_fill [where conv = IntNode_conv and zero = 0 and ty = "''IntNode''"
        and isZero = "\<lambda>v. v = 0" and boxed = "map GoInt64 vals"
        and factory = "NewIntNode byteSize" and vars = vars])
    show "checkVariables (\<lambda>v. v = 0) vals [] vars = None"
      using IntNode.prems(1) by (simp add: IntNode_checkRep_def Let_def split: if_splits)
    show "\<forall>b \<in> set (map GoInt64 vals). IntNode_conv b \<noteq> None"
      by (auto simp: IntNode_conv_def)
    show "\<forall>nm. isValidVarName nm \<longrightarrow> IntNode_conv (GoString nm) = None"
      by (auto simp: IntNode_conv_def)
    show "v \<in> fst ` set vars \<longrightarrow> IntNode_conv x \<noteq> None"
      using IntNode.prems(2) by simp
    show "typedFillVariables (IntNode byteSize vals vars) vars (map GoInt64 vals)
        (NewIntNode byteSize) [v \<mapsto> x] = Inr m'"
      using fill by (simp add: IntNode_FillVariables_def)
    show "r \<noteq> emptyItemNode \<and> (\<exists>nv nvars.
        scanValues IntNode_conv 0 ''IntNode'' 0 [] [] nvs = Inr (nv, nvars)
        \<and> Variables r = getVariableNames nvars)"
      if "NewIntNode byteSize nvs = Inr r" for nvs r
      using that by (auto simp: NewIntNode_def split: if_splits sum.splits option.splits)
  qed simp_all
  show ?case unfolding FillVariables.simps using tf by blast
next
  case (UintNode byteSize vals vars)
  have tf: "Variables m' = removeAll v (Variables (UintNode byteSize vals vars))
      \<and> (m' = emptyItemNode \<longleftrightarrow> UintNode byteSize vals vars = emptyItemNode)"
    if fill: "UintNode_FillVariables byteSize vals vars [v \<mapsto> x] = Inr m'" for m'
  proof (rule typed_fill [where conv = UintNode_conv and zero = 0 and ty = "''UintNode''"
        and isZero = "\<lambda>v. v = 0" and boxed = "map GoUint64 vals"
        and factory = "NewUintNode byteSize" and vars = vars])
    show "checkVariables (\<lambda>v. v = 0) vals [] vars = None"
      using UintNode.prems(1) by (simp add: UintNode_checkRep_def split: if_splits)
    show "\<forall>b \<in> set (map GoUint64 vals). UintNode_conv b \<noteq> None"
      by (auto simp: UintNode_conv_def)
    show "\<forall>nm. isValidVarName nm \<longrightarrow> UintNode_conv (GoString nm) = None"
      by (auto simp: UintNode_conv_def)
    show "v \<in> fst ` set vars \<longrightarrow> UintNode_conv x \<noteq> None"
      using UintNode.prems(2) by simp
    show "typedFillVariables (UintNode byteSize vals vars) vars (map GoUint64 vals)
        (NewUintNode byteSize) [v \<mapsto> x] = Inr m'"
      using fill by (simp add: UintNode_FillVariables_def)
    show "r \<noteq> emptyItemNode \<and> (\<exists>nv nvars.
        scanValues UintNode_conv 0 ''UintNode'' 0 [] [] nvs = Inr (nv, nvars)
        \<and> Variables r = getVariableNames nvars)"
      if "NewUintNode byteSize nvs = Inr r" for nvs r
      using that by (auto simp: NewUintNode_def split: if_splits sum.splits option.splits)
  qed simp_all
  show ?case unfolding FillVariables.simps using tf by blast
next
  case (FloatNode byteSize vals vars)
  have tf: "Variables m' = removeAll v (Variables (FloatNode byteSize vals vars))
      \<and> (m' = emptyItemNode \<longleftrightarrow> FloatNode byteSize vals vars = emptyItemNode)"
    if fill: "FloatNode_FillVariables lib byteSize vals vars [v \<mapsto> x] = Inr m'" for m'
  proof (rule typed_fill [where conv = "FloatNode_conv lib" and zero = 0 and ty = "''FloatNode''"
        and isZero = "\<lambda>v. v AND 0x7FFFFFFFFFFFFFFF = 0"
        and boxed = "map GoFloat64 vals"
        and factory = "NewFloatNode lib byteSize" and vars = vars])
    show "checkVariables (\<lambda>v. v AND 0x7FFFFFFFFFFFFFFF = 0) vals [] vars = None"
      using FloatNode.prems(1) by (simp add: FloatNode_checkRep_def Let_def split: if_splits)
    show "\<forall>b \<in> set (map GoFloat64 vals). FloatNode_conv lib b \<noteq> None"
      by (auto simp: FloatNode_conv_def)
    show "\<forall>nm. isValidVarName nm \<longrightarrow> FloatNode_conv lib (GoString nm) = None"
      by (auto simp: FloatNode_conv_def)
    show "v \<in> fst ` set vars \<longrightarrow> FloatNode_conv lib x \<noteq> None"
      using FloatNode.prems(2) by simp
    show "typedFillVariables (FloatNode byteSize vals vars) vars (map GoFloat64 vals)
        (NewFloatNode lib byteSize) [v \<mapsto> x] = Inr m'"
      using fill by (simp add: FloatNode_FillVariables_def)
    show "r \<noteq> emptyItemNode \<and> (\<exists>nv nvars.
        scanValues (FloatNode_conv lib) 0 ''FloatNode'' 0 [] [] nvs = Inr (nv, nvars)
        \<and> Variables r = getVariableNames nvars)"
      if "NewFloatNode lib byteSize nvs = Inr r" for nvs r
      using that by (auto simp: NewFloatNode_def split: if_splits sum.splits option.splits)
  qed simp_all
  show ?case unfolding FillVariables.simps using tf by blast
qed

text \<open>
  Claim C7, for a valid variable name and a value that the slots take as a value.  Let \<open>m\<close>
  be an item that the factories can return, \<open>v\<close> a valid variable name (so not the ellipsis)
  and \<open>x\<close> a value acceptable for \<open>v\<close> in \<open>m\<close>.  With fuel for the depth of \<open>m\<close>,
  \<open>FillVariables\<close> with the map \<open>{v: x}\<close> returns, and when it returns a node and not a panic,
  the variables of that node are the variables of \<open>m\<close> without \<open>v\<close>: the other names are
  unchanged and in their order.
\<close>

theorem variable_closure:
  assumes "constructed m" and "isValidVarName v" and "acceptable lib v x m"
    and "depth m \<le> fuel"
  shows "\<exists>r. FillVariables fuel lib m [v \<mapsto> x] = Some r
           \<and> (\<forall>m'. r = Inr m' \<longrightarrow> Variables m' = removeAll v (Variables m))"
  using variable_closure_aux [OF assms(2, 1, 3, 4)] by blast

text \<open>Filling \<open>a\<close> with 7 in \<open><L <I1 a 5> b <A s>>\<close>.\<close>

theorem variable_closure_witness:
  "constructed (ListNode [IntNode 1 [0, 5] [(''a'', 0)], emptyItemNode,
                  ASCIINode [] (asciiNodeVariable ''s'' 0 (- 1)) False] [(''b'', 1)])
   \<and> isValidVarName ''a''
   \<and> acceptable nolib ''a'' (GoInt 7)
        (ListNode [IntNode 1 [0, 5] [(''a'', 0)], emptyItemNode,
                  ASCIINode [] (asciiNodeVariable ''s'' 0 (- 1)) False] [(''b'', 1)])
   \<and> FillVariables 1 nolib
        (ListNode [IntNode 1 [0, 5] [(''a'', 0)], emptyItemNode,
                  ASCIINode [] (asciiNodeVariable ''s'' 0 (- 1)) False] [(''b'', 1)])
        [''a'' \<mapsto> GoInt 7]
       = Some (Inr (ListNode [IntNode 1 [7, 5] [], emptyItemNode,
                  ASCIINode [] (asciiNodeVariable ''s'' 0 (- 1)) False] [(''b'', 1)]))
   \<and> Variables (ListNode [IntNode 1 [7, 5] [], emptyItemNode,
                  ASCIINode [] (asciiNodeVariable ''s'' 0 (- 1)) False] [(''b'', 1)])
       = removeAll ''a'' (Variables (ListNode [IntNode 1 [0, 5] [(''a'', 0)], emptyItemNode,
                  ASCIINode [] (asciiNodeVariable ''s'' 0 (- 1)) False] [(''b'', 1)]))"
proof -
  let ?m = "ListNode [IntNode 1 [0, 5] [(''a'', 0)], emptyItemNode,
                  ASCIINode [] (asciiNodeVariable ''s'' 0 (- 1)) False] [(''b'', 1)]"
  let ?m' = "ListNode [IntNode 1 [7, 5] [], emptyItemNode,
                  ASCIINode [] (asciiNodeVariable ''s'' 0 (- 1)) False] [(''b'', 1)]"
  have c: "constructed ?m" by code_simp
  have v: "isValidVarName ''a''" by code_simp
  have a: "acceptable nolib ''a'' (GoInt 7) ?m" by code_simp
  have d: "depth ?m \<le> 1" by simp
  have f: "FillVariables 1 nolib ?m [''a'' \<mapsto> GoInt 7] = Some (Inr ?m')" by code_simp
  from variable_closure [OF c v a d] f
  have "Variables ?m' = removeAll ''a'' (Variables ?m)" by simp
  with c v a f show ?thesis by blast
qed

text \<open>
  Filling the ellipsis of \<open><L v ...>\<close> with 1: the variables were \<open>v\<close> and \<open>...\<close>; afterwards
  they are \<open>v[0]\<close> and \<open>v[1]\<close>, not \<open>v\<close>.
\<close>

theorem fill_changes_other_variables:
  "NewListNode [GoString ''v'', GoString ''...'']
     = Inr (ListNode [emptyItemNode, emptyItemNode] [(''v'', 0), (''...'', 1)])
   \<and> Variables (ListNode [emptyItemNode, emptyItemNode] [(''v'', 0), (''...'', 1)])
       = [''v'', ''...'']
   \<and> FillVariables 8 nolib (ListNode [emptyItemNode, emptyItemNode] [(''v'', 0), (''...'', 1)])
         [''...'' \<mapsto> GoInt 1]
       = Some (Inr (ListNode [emptyItemNode, emptyItemNode] [(''v[0]'', 0), (''v[1]'', 1)]))
   \<and> Variables (ListNode [emptyItemNode, emptyItemNode] [(''v[0]'', 0), (''v[1]'', 1)])
       = [''v[0]'', ''v[1]'']
   \<and> Variables (ListNode [emptyItemNode, emptyItemNode] [(''v[0]'', 0), (''v[1]'', 1)])
       \<noteq> removeAll ''...''
           (Variables (ListNode [emptyItemNode, emptyItemNode] [(''v'', 0), (''...'', 1)]))"
  by code_simp

text \<open>
  Two fills that \<open>acceptable\<close> excludes.  A string filled into the slot \<open>a\<close> of \<open><I1 a>\<close> is
  taken by the factory for a variable name: the variable is renamed.  An item that has the
  variable \<open>a\<close> itself, filled into the slot \<open>a\<close> of \<open><L a>\<close>, brings its variable along.
\<close>

lemma fill_string_becomes_variable:
  "NewIntNode 1 [GoString ''a''] = Inr (IntNode 1 [0] [(''a'', 0)])
   \<and> FillVariables 0 nolib (IntNode 1 [0] [(''a'', 0)]) [''a'' \<mapsto> GoString ''b'']
       = Some (Inr (IntNode 1 [0] [(''b'', 0)]))
   \<and> Variables (IntNode 1 [0] [(''b'', 0)]) = [''b'']"
  by code_simp

lemma fill_item_keeps_its_variables:
  "FillVariables 1 nolib (ListNode [emptyItemNode] [(''a'', 0)])
       [''a'' \<mapsto> GoItem (IntNode 1 [0] [(''a'', 0)])]
     = Some (Inr (ListNode [IntNode 1 [0] [(''a'', 0)]] []))
   \<and> Variables (ListNode [IntNode 1 [0] [(''a'', 0)]] []) = [''a'']"
  by code_simp

end
